theory Spec2Isabelle
  imports Complex_Main "HOL-Library.Sublist" "HOL-Library.List_Lexorder"
begin

section \<open>AutoMatcher: the matching core of \<open>data_processor.py\<close>\<close>

text \<open>
  The development embeds \<open>DataProcessor.preprocess_text\<close>, \<open>DataProcessor.get_status\<close>
  and \<open>DataProcessor.process_grouped_requests\<close>. A Python \<open>str\<close> is a sequence of
  Unicode code points and is modelled as a list of naturals; the literals of the source
  are written as their code points. Scores are NumPy floats in the source and real
  numbers here (rounding is not modelled).
\<close>

subsection \<open>Strings\<close>

type_synonym ustr = "nat list"

text \<open>
  The three string built-ins that \<open>preprocess_text\<close> and \<open>str.split\<close> consult. They
  belong to the Python runtime, not to the repository, so every function that needs
  them takes them as a parameter.
\<close>

record unicode_db =
  lower :: "ustr \<Rightarrow> ustr"
  isalnum :: "nat \<Rightarrow> bool"
  isspace :: "nat \<Rightarrow> bool"

text \<open>\<open>s.startswith(p)\<close>.\<close>

fun startswith :: "'a list \<Rightarrow> 'a list \<Rightarrow> bool" where
  "startswith s [] = True"
| "startswith [] (p # ps) = False"
| "startswith (c # s) (p # ps) = (c = p \<and> startswith s ps)"

text \<open>\<open>k in s\<close> for strings: \<open>k\<close> occurs in \<open>s\<close> as a substring.\<close>

fun contains :: "'a list \<Rightarrow> 'a list \<Rightarrow> bool" where
  "contains [] k = (k = [])"
| "contains (c # s) k = (startswith (c # s) k \<or> contains s k)"

text \<open>
  \<open>s.replace(old, new)\<close>: the occurrences of \<open>old\<close> are found from the left and do not
  overlap; the text that \<open>new\<close> brings in is not searched again. With an empty \<open>old\<close>
  Python puts \<open>new\<close> before every character and at the end.
\<close>

function replace :: "'a list \<Rightarrow> 'a list \<Rightarrow> 'a list \<Rightarrow> 'a list" where
  "replace [] old new = (if old = [] then new else [])"
| "replace (c # s) old new =
     (if old = [] then new @ concat (map (\<lambda>d. d # new) (c # s))
      else if startswith (c # s) old then new @ replace (drop (length old) (c # s)) old new
      else c # replace s old new)"
  by pat_completeness auto
termination
  by (relation "measure (\<lambda>(s, old, new). length s)") auto

text \<open>\<open>sep.join(xs)\<close>.\<close>

fun join :: "'a list \<Rightarrow> 'a list list \<Rightarrow> 'a list" where
  "join sep [] = []"
| "join sep [x] = x"
| "join sep (x # y # ys) = x @ sep @ join sep (y # ys)"

text \<open>
  \<open>s.split()\<close> without arguments: the maximal runs of non-whitespace characters, in
  order. \<open>cur\<close> is the run being read.
\<close>

fun split_ws :: "(nat \<Rightarrow> bool) \<Rightarrow> ustr \<Rightarrow> ustr \<Rightarrow> ustr list" where
  "split_ws sp cur [] = (if cur = [] then [] else [cur])"
| "split_ws sp cur (c # cs) =
     (if sp c then (if cur = [] then split_ws sp [] cs else cur # split_ws sp [] cs)
      else split_ws sp (cur @ [c]) cs)"

definition split :: "unicode_db \<Rightarrow> ustr \<Rightarrow> ustr list" where
  "split U s = split_ws (isspace U) [] s"

subsection \<open>The Unicode tables on Basic Latin and Cyrillic\<close>

text \<open>
  Closed evaluations and the results that depend on the tables themselves use the
  following instance. \<open>py_isspace\<close> is \<open>str.isspace\<close> on every code point.
  \<open>py_lower_char\<close> and \<open>py_isalnum\<close> are \<open>str.lower\<close> and \<open>str.isalnum\<close> only on Basic
  Latin (below 128) and on the Cyrillic letters U+0400 to U+045F. On every other code
  point they are not Python's tables (the instance leaves the character as it is and
  treats it as not alphanumeric, where Python lowers and keeps many of them). So every
  statement that depends on them is about \<open>in_fragment\<close> inputs or about whitespace,
  which \<open>str.lower\<close> leaves unchanged too, and every closed evaluation uses such inputs
  only.
\<close>

definition py_isspace :: "nat \<Rightarrow> bool" where
  "py_isspace c \<longleftrightarrow>
     (9 \<le> c \<and> c \<le> 13) \<or> (28 \<le> c \<and> c \<le> 32) \<or> c = 133 \<or> c = 160 \<or> c = 5760 \<or>
     (8192 \<le> c \<and> c \<le> 8202) \<or> c = 8232 \<or> c = 8233 \<or> c = 8239 \<or> c = 8287 \<or> c = 12288"

definition py_isalnum :: "nat \<Rightarrow> bool" where
  "py_isalnum c \<longleftrightarrow>
     (48 \<le> c \<and> c \<le> 57) \<or> (65 \<le> c \<and> c \<le> 90) \<or> (97 \<le> c \<and> c \<le> 122) \<or>
     (1024 \<le> c \<and> c \<le> 1119)"

definition py_lower_char :: "nat \<Rightarrow> nat" where
  "py_lower_char c =
     (if 65 \<le> c \<and> c \<le> 90 then c + 32
      else if 1024 \<le> c \<and> c \<le> 1039 then c + 80
      else if 1040 \<le> c \<and> c \<le> 1071 then c + 32
      else c)"

definition py_unicode :: unicode_db where
  "py_unicode = \<lparr> lower = map py_lower_char, isalnum = py_isalnum, isspace = py_isspace \<rparr>"

definition in_fragment :: "ustr \<Rightarrow> bool" where
  "in_fragment s \<longleftrightarrow> (\<forall>c \<in> set s. c < 128 \<or> (1024 \<le> c \<and> c \<le> 1119))"

subsection \<open>Text normalisation\<close>

text \<open>
  \<open>self.replacements\<close>, in the order in which the dictionary literal of \<open>__init__\<close>
  lists its items (the order in which \<open>items()\<close> yields them). The keys read, in Latin
  transliteration: permanentnyj, marker, mul'tifora, gruzopod"emnost'ju, plastikovyj,
  metallicheskij, tn, korrektirujushchee, samoklejashchajasja, gibkaja, registrator,
  kal'cinirovannaja, gost, assorti, arochnyj.
\<close>

definition replacements :: "(ustr \<times> ustr) list" where
  "replacements =
  [([1087, 1077, 1088, 1084, 1072, 1085, 1077, 1085, 1090, 1085, 1099, 1081],
    [1087, 1077, 1088, 1084]),
   ([1084, 1072, 1088, 1082, 1077, 1088],
    [1084, 1072, 1088, 1082]),
   ([1084, 1091, 1083, 1100, 1090, 1080, 1092, 1086, 1088, 1072],
    [1092, 1072, 1081, 1083]),
   ([1075, 1088, 1091, 1079, 1086, 1087, 1086, 1076, 1098, 1077, 1084, 1085, 1086, 1089, 1090, 1100, 1102],
    [1075, 1088, 1091, 1079]),
   ([1087, 1083, 1072, 1089, 1090, 1080, 1082, 1086, 1074, 1099, 1081],
    [1087, 1083, 1072, 1089, 1090]),
   ([1084, 1077, 1090, 1072, 1083, 1083, 1080, 1095, 1077, 1089, 1082, 1080, 1081],
    [1084, 1077, 1090]),
   ([1090, 1085],
    [1090, 1086, 1085, 1085]),
   ([1082, 1086, 1088, 1088, 1077, 1082, 1090, 1080, 1088, 1091, 1102, 1097, 1077, 1077],
    [1082, 1086, 1088, 1088]),
   ([1089, 1072, 1084, 1086, 1082, 1083, 1077, 1103, 1097, 1072, 1103, 1089, 1103],
    [1089, 1072, 1084, 1086, 1082, 1083]),
   ([1075, 1080, 1073, 1082, 1072, 1103],
    [1075, 1080, 1073, 1082]),
   ([1088, 1077, 1075, 1080, 1089, 1090, 1088, 1072, 1090, 1086, 1088],
    [1088, 1077, 1075, 1080, 1089, 1090, 1088]),
   ([1082, 1072, 1083, 1100, 1094, 1080, 1085, 1080, 1088, 1086, 1074, 1072, 1085, 1085, 1072, 1103],
    [1082, 1072, 1083, 1100, 1094]),
   ([1075, 1086, 1089, 1090],
    [1089, 1090, 1072, 1085, 1076, 1072, 1088, 1090]),
   ([1072, 1089, 1089, 1086, 1088, 1090, 1080],
    [1088, 1072, 1079, 1085, 1099, 1077, 32, 1094, 1074, 1077, 1090, 1072]),
   ([1072, 1088, 1086, 1095, 1085, 1099, 1081],
    [1076, 1091, 1075, 1072])]"

text \<open>
  The loop \<open>for k, v in self.replacements.items(): text = text.replace(k, v)\<close>: every
  substitution sees the result of the ones before it.
\<close>

definition apply_replacements :: "(ustr \<times> ustr) list \<Rightarrow> ustr \<Rightarrow> ustr" where
  "apply_replacements tab text = fold (\<lambda>(k, v) t. replace t k v) tab text"

text \<open>
  \<open>preprocess_text\<close>, on the text that \<open>str(text)\<close> yields: lower case, keep the
  characters that are alphanumeric or whitespace, apply the table.
\<close>

definition preprocess_text :: "unicode_db \<Rightarrow> ustr \<Rightarrow> ustr" where
  "preprocess_text U text =
     apply_replacements replacements
       (filter (\<lambda>char. isalnum U char \<or> isspace U char) (lower U text))"

text \<open>
  A character of normalised text: lower-casing leaves it alone and the filter keeps it.
\<close>

definition norm_char :: "nat \<Rightarrow> bool" where
  "norm_char c \<longleftrightarrow> py_lower_char c = c \<and> (py_isalnum c \<or> py_isspace c)"

subsection \<open>Tables, errors and results\<close>

text \<open>
  A cell of a data frame is text or missing (\<open>NaN\<close>). Numeric cells are outside the model;
  the catalogue and the request are read from spreadsheets of product names, codes and
  yes/no flags. \<open>py_str\<close> is \<open>str(value)\<close> (and \<open>astype(str)\<close>), which prints a missing
  value as \<open>nan\<close>; \<open>notna\<close> is \<open>pd.notna\<close>.
\<close>

datatype cell = NaN | Str ustr

fun py_str :: "cell \<Rightarrow> ustr" where
  "py_str NaN = [110, 97, 110]"
| "py_str (Str s) = s"

fun notna :: "cell \<Rightarrow> bool" where
  "notna NaN = False"
| "notna (Str s) = True"

text \<open>
  A data frame: its column names and its rows in index order. A row maps a column name to
  the cell; only the names in \<open>columns\<close> are read without an error.
\<close>

type_synonym row = "ustr \<Rightarrow> cell"

record frame =
  columns :: "ustr list"
  rows :: "row list"

text \<open>
  The exceptions that can leave \<open>process_grouped_requests\<close>: \<open>DataNotLoaded\<close> is the
  \<open>ValueError\<close> of the first check, \<open>KeyError\<close> a missing column, \<open>ZeroDivisionError\<close>
  comes from the BM25 library, \<open>EmptySequence\<close> is the \<open>ValueError\<close> of \<open>min\<close> and \<open>max\<close>
  on no scores, \<open>IndexError\<close> a list index out of range and \<open>LengthMismatch\<close> the
  \<open>ValueError\<close> of assigning a column of the wrong length.
\<close>

datatype error =
  DataNotLoaded | KeyError ustr | ZeroDivisionError | EmptySequence | IndexError | LengthMismatch

definition bind_err :: "error + 'a \<Rightarrow> ('a \<Rightarrow> error + 'b) \<Rightarrow> error + 'b" where
  "bind_err x f = (case x of Inl e \<Rightarrow> Inl e | Inr v \<Rightarrow> f v)"

text \<open>\<open>row[col]\<close>.\<close>

definition getitem :: "ustr list \<Rightarrow> row \<Rightarrow> ustr \<Rightarrow> error + cell" where
  "getitem cols r c = (if c \<in> set cols then Inr (r c) else Inl (KeyError c))"

text \<open>
  The column names and the flag value of the source: Nomenklatura (the product name),
  Kod (the code), Oformleno, TovarProizvoditelya, OsnovnojAssortiment (the three flags),
  Da (yes), Net (no), and the derived columns \<open>processed\<close>, \<open>similarity\<close> and
  \<open>combined_key\<close>.
\<close>

definition col_Nomenklatura :: ustr where
  "col_Nomenklatura = [1053, 1086, 1084, 1077, 1085, 1082, 1083, 1072, 1090, 1091, 1088, 1072]"

definition col_Kod :: ustr where
  "col_Kod = [1050, 1086, 1076]"

definition col_Oformleno :: ustr where
  "col_Oformleno = [1054, 1092, 1086, 1088, 1084, 1083, 1077, 1085, 1086]"

definition col_TovarProizvoditelya :: ustr where
  "col_TovarProizvoditelya =
     [1058, 1086, 1074, 1072, 1088, 1055, 1088, 1086, 1080, 1079, 1074, 1086, 1076, 1080, 1090, 1077, 1083, 1103]"

definition col_OsnovnojAssortiment :: ustr where
  "col_OsnovnojAssortiment =
     [1054, 1089, 1085, 1086, 1074, 1085, 1086, 1081, 1040, 1089, 1089, 1086, 1088, 1090, 1080, 1084, 1077, 1085, 1090]"

definition Da :: ustr where
  "Da = [1044, 1072]"

definition Net :: ustr where
  "Net = [1053, 1077, 1090]"

definition col_processed :: ustr where
  "col_processed = [112, 114, 111, 99, 101, 115, 115, 101, 100]"

definition col_similarity :: ustr where
  "col_similarity = [115, 105, 109, 105, 108, 97, 114, 105, 116, 121]"

definition col_combined_key :: ustr where
  "col_combined_key = [99, 111, 109, 98, 105, 110, 101, 100, 95, 107, 101, 121]"

text \<open>
  One dictionary of the result list, with its keys Zapros (the query, here the group
  key), Nomenklatura, Kod, Skhodstvo (the similarity) and Status.
\<close>

record match_result =
  Zapros :: ustr
  Nomenklatura :: cell
  Kod :: cell
  Skhodstvo :: real
  Status :: ustr

text \<open>
  \<open>get_status\<close>: the labels of the flags that are set, in the fixed order, joined by a
  comma and a space, or a dash (U+2014) when none is set.
\<close>

definition get_status :: "ustr list \<Rightarrow> row \<Rightarrow> error + ustr" where
  "get_status cols r =
     bind_err (getitem cols r col_Oformleno) (\<lambda>a.
     bind_err (getitem cols r col_TovarProizvoditelya) (\<lambda>b.
     bind_err (getitem cols r col_OsnovnojAssortiment) (\<lambda>c.
       let status =
             (if a = Str Da then [[1054, 1092, 1086, 1088, 1084, 1083, 1077, 1085, 1086]] else []) @
             (if b = Str Da
              then [[1058, 1086, 1074, 1072, 1088, 32, 1055, 1088, 1086, 1080, 1079, 1074, 1086, 1076, 1080, 1090, 1077, 1083, 1103]]
              else []) @
             (if c = Str Da
              then [[1054, 1089, 1085, 1086, 1074, 1085, 1086, 1081, 32, 1040, 1089, 1089, 1086, 1088, 1090, 1080, 1084, 1077, 1085, 1090]]
              else [])
       in Inr (if status \<noteq> [] then join [44, 32] status else [8212]))))"

subsection \<open>The BM25 index\<close>

text \<open>
  \<open>BM25Okapi\<close> is imported from the library \<open>rank_bm25\<close>, which is not part of the
  repository. The model follows the library: the constructor counts the documents,
  divides the number of tokens by the number of documents (\<open>avgdl\<close>), computes the
  inverse document frequencies and divides their sum by the size of the vocabulary;
  both divisions raise \<open>ZeroDivisionError\<close> on zero. The parameters are the library's
  defaults \<open>k1 = 1.5\<close>, \<open>b = 0.75\<close>, \<open>epsilon = 0.25\<close>.
\<close>

record bm25 =
  corpus_size :: nat
  avgdl :: real
  doc_freqs :: "(ustr \<Rightarrow> nat) list"
  idf :: "ustr \<Rightarrow> real option"
  doc_len :: "nat list"

definition BM25Okapi :: "ustr list list \<Rightarrow> error + bm25" where
  "BM25Okapi corpus =
     (if corpus = [] then Inl ZeroDivisionError
      else
        let vocab = remdups (concat corpus);
            N = length corpus;
            nd = (\<lambda>w. length (filter (\<lambda>d. w \<in> set d) corpus));
            raw = (\<lambda>w. ln (real N - real (nd w) + 0.5) - ln (real (nd w) + 0.5))
        in if vocab = [] then Inl ZeroDivisionError
           else
             let average_idf = (\<Sum>w\<leftarrow>vocab. raw w) / real (length vocab);
                 eps = 0.25 * average_idf
             in Inr \<lparr> corpus_size = N,
                      avgdl = real (\<Sum>d\<leftarrow>corpus. length d) / real N,
                      doc_freqs = map (\<lambda>d w. count_list d w) corpus,
                      idf = (\<lambda>w. if w \<in> set vocab
                                  then Some (if raw w < 0 then eps else raw w) else None),
                      doc_len = map length corpus \<rparr>)"

text \<open>
  \<open>get_scores\<close>: the score vector starts as \<open>corpus_size\<close> zeros, and every token of the
  query adds its contribution to every document.
\<close>

definition term_scores :: "bm25 \<Rightarrow> ustr \<Rightarrow> real list" where
  "term_scores m q =
     map2 (\<lambda>doc dl.
            (case idf m q of None \<Rightarrow> 0 | Some i \<Rightarrow> i) *
            (real (doc q) * (1.5 + 1) /
             (real (doc q) + 1.5 * (1 - 0.75 + 0.75 * real dl / avgdl m))))
          (doc_freqs m) (doc_len m)"

definition get_scores :: "bm25 \<Rightarrow> ustr list \<Rightarrow> real list" where
  "get_scores m query =
     fold (\<lambda>q score. map2 (+) score (term_scores m q)) query (replicate (corpus_size m) 0)"

subsection \<open>Scores: normalisation and the prefix bonus\<close>

text \<open>The built-ins \<open>min\<close> and \<open>max\<close> on the score vector.\<close>

fun py_min :: "real list \<Rightarrow> error + real" where
  "py_min [] = Inl EmptySequence"
| "py_min (s # scores) = Inr (fold (\<lambda>x m. if x < m then x else m) scores s)"

fun py_max :: "real list \<Rightarrow> error + real" where
  "py_max [] = Inl EmptySequence"
| "py_max (s # scores) = Inr (fold (\<lambda>x m. if x > m then x else m) scores s)"

definition normalize_scores :: "real list \<Rightarrow> error + real list" where
  "normalize_scores scores =
     bind_err (py_min scores) (\<lambda>min_score.
     bind_err (py_max scores) (\<lambda>max_score.
       Inr (if max_score = min_score
            then (if max_score > 0 then replicate (length scores) 100
                  else replicate (length scores) 0)
            else map (\<lambda>s. (s - min_score) / (max_score - min_score) * 100) scores)))"

text \<open>
  The loop over \<open>enumerate(self.nomenclature_df['processed'])\<close>: \<open>query\<close> is the
  space-joined token list, \<open>idx\<close> the running index.
\<close>

fun prefix_bonus :: "ustr \<Rightarrow> ustr list \<Rightarrow> nat \<Rightarrow> real list \<Rightarrow> error + real list" where
  "prefix_bonus query [] idx normalized = Inr normalized"
| "prefix_bonus query (name # names) idx normalized =
     (if startswith name query
      then (if idx < length normalized
            then prefix_bonus query names (Suc idx)
                   (normalized[idx := min (normalized ! idx + 5) 100])
            else Inl IndexError)
      else prefix_bonus query names (Suc idx) normalized)"

subsection \<open>Sorting and selection\<close>

text \<open>
  A row of \<open>temp_df\<close>: the catalogue row (with its \<open>processed\<close> column) and the value of
  the \<open>similarity\<close> column.
\<close>

record candidate =
  entry :: row
  similarity :: real

definition with_similarity :: "row list \<Rightarrow> real list \<Rightarrow> error + candidate list" where
  "with_similarity nom normalized =
     (if length normalized = length nom
      then Inr (map2 (\<lambda>r s. \<lparr> entry = r, similarity = s \<rparr>) nom normalized)
      else Inl LengthMismatch)"

text \<open>
  \<open>sort_values([priority, 'similarity'], ascending=[False, False])\<close>. Strings compare
  by code points, a missing value goes last, and pandas sorts several keys with a stable
  sort, so rows equal on both keys keep the order of the catalogue. \<open>cell_before a b\<close>:
  the value \<open>a\<close> strictly precedes \<open>b\<close> in descending order. The column \<open>similarity\<close> of
  \<open>temp_df\<close> is the new one, also when \<open>priority\<close> names it.
\<close>

fun cell_before :: "cell \<Rightarrow> cell \<Rightarrow> bool" where
  "cell_before (Str s) (Str t) = (t < s)"
| "cell_before (Str s) NaN = True"
| "cell_before NaN b = False"

definition precedes :: "ustr \<Rightarrow> candidate \<Rightarrow> candidate \<Rightarrow> bool" where
  "precedes priority a b =
     (if priority = col_similarity then similarity a > similarity b
      else cell_before (entry a priority) (entry b priority) \<or>
           (entry a priority = entry b priority \<and> similarity a > similarity b))"

fun insert_stable :: "('a \<Rightarrow> 'a \<Rightarrow> bool) \<Rightarrow> 'a \<Rightarrow> 'a list \<Rightarrow> 'a list" where
  "insert_stable before x [] = [x]"
| "insert_stable before x (y # ys) =
     (if before y x then y # insert_stable before x ys else x # y # ys)"

definition stable_sort :: "('a \<Rightarrow> 'a \<Rightarrow> bool) \<Rightarrow> 'a list \<Rightarrow> 'a list" where
  "stable_sort before xs = foldr (insert_stable before) xs []"

definition sort_values :: "ustr \<Rightarrow> ustr list \<Rightarrow> candidate list \<Rightarrow> error + candidate list" where
  "sort_values priority cols temp_df =
     (if priority \<in> set cols \<or> priority = col_similarity
      then Inr (stable_sort (precedes priority) temp_df)
      else Inl (KeyError priority))"

text \<open>
  \<open>DataFrame.head(n)\<close>: the first \<open>n\<close> rows, and for a negative \<open>n\<close> all rows but the
  last \<open>-n\<close>.
\<close>

definition head :: "int \<Rightarrow> 'a list \<Rightarrow> 'a list" where
  "head n xs = (if 0 \<le> n then take (nat n) xs else take (length xs - nat (- n)) xs)"

text \<open>
  The filtering loop over \<open>sorted_df.iterrows()\<close>, with the set \<open>unique_codes\<close> as its
  state; \<open>break\<close> ends it once the set has \<open>top_n\<close> codes.
\<close>

fun select_unique ::
  "ustr list \<Rightarrow> int \<Rightarrow> ustr \<Rightarrow> candidate list \<Rightarrow> cell set \<Rightarrow> error + match_result list" where
  "select_unique cols top_n group_name [] unique_codes = Inr []"
| "select_unique cols top_n group_name (c # cs) unique_codes =
     bind_err (getitem cols (entry c) col_Kod) (\<lambda>code.
       if code \<notin> unique_codes
       then bind_err (getitem cols (entry c) col_Nomenklatura) (\<lambda>name.
            bind_err (get_status cols (entry c)) (\<lambda>status.
              let res = \<lparr> Zapros = group_name, Nomenklatura = name, Kod = code,
                          Skhodstvo = similarity c, Status = status \<rparr>
              in if top_n \<le> int (card (insert code unique_codes)) then Inr [res]
                 else bind_err (select_unique cols top_n group_name cs (insert code unique_codes))
                        (\<lambda>rest. Inr (res # rest))))
       else select_unique cols top_n group_name cs unique_codes)"

subsection \<open>Grouping and the query of a group\<close>

text \<open>
  The parts of a group's query: for every row of the group, the texts of the selected
  columns that are not missing.
\<close>

definition query_parts :: "ustr list \<Rightarrow> row list \<Rightarrow> ustr list" where
  "query_parts selected_columns group_df =
     concat (map (\<lambda>row. map (\<lambda>col. py_str (row col))
                          (filter (\<lambda>col. notna (row col)) selected_columns)) group_df)"

text \<open>\<open>xs.index(x)\<close> for an \<open>x\<close> that occurs in \<open>xs\<close>: the position of its first occurrence.\<close>

fun index :: "'a list \<Rightarrow> 'a \<Rightarrow> nat" where
  "index [] x = 0"
| "index (y # ys) x = (if y = x then 0 else Suc (index ys x))"

text \<open>
  \<open>' '.join(sorted(set(query_parts), key=query_parts.index))\<close>. The order in which a
  Python set yields its elements is not fixed; \<open>it\<close> is that order, any list of the
  distinct parts. \<open>unique_query\<close> takes one such list.
\<close>

definition unique_query_of :: "ustr list \<Rightarrow> ustr list \<Rightarrow> ustr" where
  "unique_query_of it parts = join [32] (sort_key (index parts) it)"

definition unique_query :: "ustr list \<Rightarrow> ustr" where
  "unique_query parts = unique_query_of (remdups parts) parts"

text \<open>
  The words of the specification: the values in first-occurrence order, without the
  repetitions.
\<close>

fun first_occurrences :: "'a list \<Rightarrow> 'a list" where
  "first_occurrences [] = []"
| "first_occurrences (x # xs) = x # filter (\<lambda>y. y \<noteq> x) (first_occurrences xs)"

text \<open>
  The group key of a row, and \<open>groupby\<close>: the groups in ascending order of their keys,
  each with its rows in the order of the frame.
\<close>

definition combined_key :: "ustr list \<Rightarrow> row \<Rightarrow> ustr" where
  "combined_key selected_columns r = join [32, 124, 32] (map (\<lambda>c. py_str (r c)) selected_columns)"

definition groupby :: "('r \<Rightarrow> ustr) \<Rightarrow> 'r list \<Rightarrow> (ustr \<times> 'r list) list" where
  "groupby key rs = map (\<lambda>k. (k, filter (\<lambda>r. key r = k) rs)) (sort (remdups (map key rs)))"

subsection \<open>\<open>process_grouped_requests\<close>\<close>

text \<open>The body of the loop for one group: from the rows of the group to its results.\<close>

definition process_group ::
  "unicode_db \<Rightarrow> bm25 \<Rightarrow> ustr list \<Rightarrow> row list \<Rightarrow> ustr list \<Rightarrow> ustr \<Rightarrow> int \<Rightarrow>
   ustr \<times> row list \<Rightarrow> error + match_result list" where
  "process_group U bm cols nom selected_columns priority top_n g =
     (let group_name = fst g;
          processed_query =
            split U (preprocess_text U (unique_query (query_parts selected_columns (snd g))));
          scores = get_scores bm processed_query
      in bind_err (normalize_scores scores) (\<lambda>normalized.
         bind_err (prefix_bonus (join [32] processed_query)
                     (map (\<lambda>r. py_str (r col_processed)) nom) 0 normalized) (\<lambda>normalized.
         bind_err (with_similarity nom normalized) (\<lambda>temp_df.
         bind_err (sort_values priority cols temp_df) (\<lambda>sorted_df.
           select_unique cols top_n group_name (head (top_n * 2) sorted_df) {})))))"

text \<open>
  The loop over the groups. \<open>results\<close> is the list built so far and \<open>h\<close> the state of the
  host, which the callback \<open>update_progress\<close> changes after every group; an exception in
  a group leaves the loop and the results are lost. Nothing in the loop reads the state
  of the host.
\<close>

fun process_groups ::
  "(ustr \<times> row list \<Rightarrow> error + match_result list) \<Rightarrow> (nat \<Rightarrow> nat \<Rightarrow> 'h \<Rightarrow> 'h) \<Rightarrow> nat \<Rightarrow>
   (ustr \<times> row list) list \<Rightarrow> nat \<Rightarrow> match_result list \<Rightarrow> 'h \<Rightarrow> error + match_result list \<times> 'h" where
  "process_groups body update_progress total_groups [] group_idx results h = Inr (results, h)"
| "process_groups body update_progress total_groups (g # gs) group_idx results h =
     bind_err (body g) (\<lambda>group_results.
       process_groups body update_progress total_groups gs (Suc group_idx)
         (results @ group_results) (update_progress (group_idx + 1) total_groups h))"

text \<open>
  The two columns that \<open>process_grouped_requests\<close> writes into the frames before the
  loop: the group key of every request row, and the normalised name of every catalogue
  row.
\<close>

definition add_combined_key :: "ustr list \<Rightarrow> row list \<Rightarrow> row list" where
  "add_combined_key selected_columns rs =
     map (\<lambda>r. r(col_combined_key := Str (combined_key selected_columns r))) rs"

definition add_processed :: "unicode_db \<Rightarrow> row list \<Rightarrow> row list" where
  "add_processed U rs =
     map (\<lambda>r. r(col_processed := Str (preprocess_text U (py_str (r col_Nomenklatura))))) rs"

text \<open>
  \<open>process_grouped_requests\<close>. \<open>request_df\<close> and \<open>nomenclature_df\<close> are the two attributes
  of the processor, \<open>None\<close> until loaded.
\<close>

definition process_grouped_requests ::
  "unicode_db \<Rightarrow> (nat \<Rightarrow> nat \<Rightarrow> 'h \<Rightarrow> 'h) \<Rightarrow> ustr list \<Rightarrow> ustr \<Rightarrow> int \<Rightarrow>
   frame option \<Rightarrow> frame option \<Rightarrow> 'h \<Rightarrow> error + match_result list \<times> 'h" where
  "process_grouped_requests U update_progress selected_columns priority top_n
     request_df nomenclature_df h =
     (case request_df of None \<Rightarrow> Inl DataNotLoaded
      | Some req \<Rightarrow>
     (case nomenclature_df of None \<Rightarrow> Inl DataNotLoaded
      | Some nom \<Rightarrow>
     (case find (\<lambda>c. c \<notin> set (columns req)) selected_columns of Some c \<Rightarrow> Inl (KeyError c)
      | None \<Rightarrow>
        let grouped = groupby (\<lambda>r. py_str (r col_combined_key))
                        (add_combined_key selected_columns (rows req))
        in if col_Nomenklatura \<notin> set (columns nom) then Inl (KeyError col_Nomenklatura)
           else
             let nom_rows = add_processed U (rows nom);
                 nom_cols = (if col_processed \<in> set (columns nom) then columns nom
                             else columns nom @ [col_processed]);
                 tokenized_names = map (\<lambda>r. split U (py_str (r col_processed))) nom_rows
             in bind_err (BM25Okapi tokenized_names) (\<lambda>bm.
                  process_groups
                    (process_group U bm nom_cols nom_rows selected_columns priority top_n)
                    update_progress (length grouped) grouped 0 [] h))))"

subsection \<open>Auxiliary notions and example data\<close>

text \<open>
  The columns that \<open>load_nomenclature_data\<close> guarantees: it adds those of the five that
  the file lacks.
\<close>

definition required_columns :: "ustr list \<Rightarrow> bool" where
  "required_columns cols \<longleftrightarrow>
     col_Kod \<in> set cols \<and> col_Nomenklatura \<in> set cols \<and> col_Oformleno \<in> set cols \<and>
     col_TovarProizvoditelya \<in> set cols \<and> col_OsnovnojAssortiment \<in> set cols"

text \<open>What a result shows of the catalogue row it was made from: name, code and similarity.\<close>

definition shown :: "candidate \<Rightarrow> cell \<times> cell \<times> real" where
  "shown c = (entry c col_Nomenklatura, entry c col_Kod, similarity c)"

definition shown_result :: "match_result \<Rightarrow> cell \<times> cell \<times> real" where
  "shown_result r = (Nomenklatura r, Kod r, Skhodstvo r)"

text \<open>Rows for the examples: a row given by its cells, and a catalogue row.\<close>

definition mk_row :: "(ustr \<times> cell) list \<Rightarrow> row" where
  "mk_row kvs = (\<lambda>c. case map_of kvs c of Some v \<Rightarrow> v | None \<Rightarrow> NaN)"

definition catalog_columns :: "ustr list" where
  "catalog_columns =
     [col_Nomenklatura, col_Kod, col_Oformleno, col_TovarProizvoditelya, col_OsnovnojAssortiment]"

definition catalog_row :: "ustr \<Rightarrow> ustr \<Rightarrow> ustr \<Rightarrow> row" where
  "catalog_row name code listed =
     mk_row [(col_Nomenklatura, Str name), (col_Kod, Str code), (col_Oformleno, Str listed),
             (col_TovarProizvoditelya, Str Net), (col_OsnovnojAssortiment, Str Net)]"

definition example_sorted :: "candidate list" where
  "example_sorted =
     [\<lparr> entry = catalog_row [97] [49] Net, similarity = 90 \<rparr>,
      \<lparr> entry = catalog_row [98] [49] Net, similarity = 80 \<rparr>,
      \<lparr> entry = catalog_row [99] [50] Net, similarity = 70 \<rparr>,
      \<lparr> entry = catalog_row [100] [51] Net, similarity = 60 \<rparr>,
      \<lparr> entry = catalog_row [101] [52] Net, similarity = 50 \<rparr>]"

definition example_catalog :: frame where
  "example_catalog = \<lparr> columns = catalog_columns, rows = [catalog_row [97] [49] Net] \<rparr>"

definition example_request :: frame where
  "example_request =
     \<lparr> columns = [[113]], rows = [mk_row [([113], Str [45])], mk_row [([113], Str [43])]] \<rparr>"

definition example_processed :: "row list" where
  "example_processed = [(catalog_row [97] [49] Net)(col_processed := Str [97])]"

definition example_groups :: "(ustr \<times> row list) list" where
  "example_groups =
     [([43], [(mk_row [([113], Str [43])])(col_combined_key := Str [43])]),
      ([45], [(mk_row [([113], Str [45])])(col_combined_key := Str [45])])]"

text \<open>Two candidates that neither sort key separates.\<close>

definition same_keys :: "ustr \<Rightarrow> candidate \<Rightarrow> candidate \<Rightarrow> bool" where
  "same_keys p a b \<longleftrightarrow> \<not> precedes p a b \<and> \<not> precedes p b a"

section \<open>Properties\<close>

subsection \<open>Text normalisation\<close>

lemma startswith_set: "startswith s k \<Longrightarrow> set k \<subseteq> set s"
  by (induction s k rule: startswith.induct) auto

lemma contains_set: "contains s k \<Longrightarrow> set k \<subseteq> set s"
proof (induction s)
  case Nil
  then show ?case by simp
next
  case (Cons c s)
  from Cons.prems have "startswith (c # s) k \<or> contains s k" by simp
  then show ?case
  proof
    assume "startswith (c # s) k"
    then show ?thesis by (rule startswith_set)
  next
    assume "contains s k"
    then have "set k \<subseteq> set s" by (rule Cons.IH)
    then show ?thesis by auto
  qed
qed

lemma replace_absent: "k \<noteq> [] \<Longrightarrow> \<not> contains s k \<Longrightarrow> replace s k v = s"
  by (induction s) auto

lemma set_replace: "old \<noteq> [] \<Longrightarrow> set (replace s old new) \<subseteq> set s \<union> set new"
proof (induction s old new rule: replace.induct)
  case (1 old new)
  then show ?case by simp
next
  case (2 c s old new)
  then show ?case
    using set_drop_subset[of "length old" "c # s"] by (auto split: if_splits)
qed

lemma apply_replacements_absent:
  "\<forall>(k, v) \<in> set tab. k \<noteq> [] \<and> \<not> contains t k \<Longrightarrow> apply_replacements tab t = t"
  unfolding apply_replacements_def
  by (induction tab) (auto simp: replace_absent)

lemma set_apply_replacements:
  "\<forall>(k, v) \<in> set tab. k \<noteq> [] \<Longrightarrow>
   set (apply_replacements tab t) \<subseteq> set t \<union> (\<Union>(k, v) \<in> set tab. set v)"
  unfolding apply_replacements_def
proof (induction tab arbitrary: t)
  case Nil
  then show ?case by simp
next
  case (Cons kv tab)
  obtain k v where kv: "kv = (k, v)" by (cases kv)
  from Cons.prems kv have k: "k \<noteq> []" by simp
  have "set (fold (\<lambda>(k, v) t. replace t k v) tab (replace t k v))
        \<subseteq> set (replace t k v) \<union> (\<Union>(k, v) \<in> set tab. set v)"
    using Cons.prems by (intro Cons.IH) simp
  with set_replace[OF k, of t v] show ?case
    by (auto simp: kv)
qed

lemma keys_nonempty: "\<forall>(k, v) \<in> set replacements. k \<noteq> []"
  by (simp add: replacements_def)

lemma values_norm: "\<forall>(k, v) \<in> set replacements. \<forall>c \<in> set v. norm_char c"
  by (simp add: replacements_def norm_char_def py_lower_char_def py_isalnum_def py_isspace_def)

lemma keys_no_space: "\<forall>(k, v) \<in> set replacements. \<exists>c \<in> set k. \<not> py_isspace c"
  by (simp add: replacements_def py_isspace_def)

lemma py_lower_char_idem: "py_lower_char (py_lower_char c) = py_lower_char c"
  by (simp add: py_lower_char_def)

lemma py_lower_char_space: "py_isspace c \<Longrightarrow> py_lower_char c = c"
  by (auto simp: py_lower_char_def py_isspace_def)

lemma clean_norm:
  "\<forall>c \<in> set (filter (\<lambda>char. py_isalnum char \<or> py_isspace char) (map py_lower_char x)). norm_char c"
  by (auto simp: norm_char_def py_lower_char_idem)

lemma preprocess_text_py:
  "preprocess_text py_unicode t =
     apply_replacements replacements
       (filter (\<lambda>char. py_isalnum char \<or> py_isspace char) (map py_lower_char t))"
  by (simp add: preprocess_text_def py_unicode_def)

lemma preprocess_text_norm: "\<forall>c \<in> set (preprocess_text py_unicode x). norm_char c"
proof
  fix c assume c: "c \<in> set (preprocess_text py_unicode x)"
  let ?t = "filter (\<lambda>char. py_isalnum char \<or> py_isspace char) (map py_lower_char x)"
  have "set (apply_replacements replacements ?t) \<subseteq> set ?t \<union> (\<Union>(k, v) \<in> set replacements. set v)"
    using keys_nonempty by (rule set_apply_replacements)
  with c have "c \<in> set ?t \<or> c \<in> (\<Union>(k, v) \<in> set replacements. set v)"
    unfolding preprocess_text_py by blast
  then show "norm_char c"
  proof
    assume "c \<in> set ?t"
    then show ?thesis using clean_norm[of x] by blast
  next
    assume "c \<in> (\<Union>(k, v) \<in> set replacements. set v)"
    then show ?thesis using values_norm by blast
  qed
qed

lemma split_ws_spaces: "\<forall>c \<in> set s. sp c \<Longrightarrow> split_ws sp [] s = []"
  by (induction s) auto

text \<open>
  For any tables: a second pass changes nothing when the normalised text contains no
  full term of the table and lower-casing and stripping leave it unchanged.
\<close>

lemma preprocess_text_fixed_point:
  assumes "\<forall>(k, v) \<in> set replacements. \<not> contains (preprocess_text U x) k"
    and "filter (\<lambda>char. isalnum U char \<or> isspace U char) (lower U (preprocess_text U x))
         = preprocess_text U x"
  shows "preprocess_text U (preprocess_text U x) = preprocess_text U x"
proof -
  have "\<forall>(k, v) \<in> set replacements. k \<noteq> [] \<and> \<not> contains (preprocess_text U x) k"
    using assms(1) keys_nonempty by fastforce
  then have "apply_replacements replacements (preprocess_text U x) = preprocess_text U x"
    by (rule apply_replacements_absent)
  then show ?thesis
    by (simp add: preprocess_text_def[of U "preprocess_text U x"] assms(2))
qed

text \<open>
  Claim C7, as amended. \<open>preprocess_text\<close> is not idempotent in general (the
  counterexample follows below): a substitution can leave text in which an earlier or
  the same full term occurs again. For every input made only of Basic Latin characters
  (code points below 128) and Cyrillic letters U+0400 to U+045F, it is idempotent
  whenever the normalised text contains none of the table's full terms as a substring.
\<close>

theorem preprocess_text_idempotent_without_terms:
  assumes "in_fragment x"
    and "\<forall>(k, v) \<in> set replacements. \<not> contains (preprocess_text py_unicode x) k"
  shows "preprocess_text py_unicode (preprocess_text py_unicode x) = preprocess_text py_unicode x"
proof -
  define y where "y = preprocess_text py_unicode x"
  have n: "\<forall>c \<in> set y. norm_char c" unfolding y_def by (rule preprocess_text_norm)
  have l: "map py_lower_char y = y"
    using n by (intro map_idI) (simp add: norm_char_def)
  have f: "filter (\<lambda>char. py_isalnum char \<or> py_isspace char) y = y"
    using n by (intro filter_True) (simp add: norm_char_def)
  have "\<forall>(k, v) \<in> set replacements. k \<noteq> [] \<and> \<not> contains y k"
    using assms(2) keys_nonempty unfolding y_def by fastforce
  then have "apply_replacements replacements y = y"
    by (rule apply_replacements_absent)
  then have "preprocess_text py_unicode y = y"
    by (simp add: preprocess_text_py l f)
  then show ?thesis by (simp add: y_def)
qed

text \<open>
  Claim C9, as amended. \<open>preprocess_text\<close> keeps whitespace: an input made only of
  whitespace characters (the empty input included) is returned unchanged, so the empty
  string is returned exactly for the empty input; splitting the result yields no token.
\<close>

theorem preprocess_text_whitespace:
  assumes "\<forall>c \<in> set x. py_isspace c"
  shows "preprocess_text py_unicode x = x \<and> split py_unicode (preprocess_text py_unicode x) = []"
proof -
  have l: "map py_lower_char x = x"
    using assms by (intro map_idI) (simp add: py_lower_char_space)
  have f: "filter (\<lambda>char. py_isalnum char \<or> py_isspace char) x = x"
    using assms by (intro filter_True) simp
  have "\<forall>(k, v) \<in> set replacements. k \<noteq> [] \<and> \<not> contains x k"
  proof (clarify, rule conjI)
    fix k v assume kv: "(k, v) \<in> set replacements"
    then show "k \<noteq> []" using keys_nonempty by auto
    from kv obtain c where "c \<in> set k" "\<not> py_isspace c" using keys_no_space by auto
    then have "\<not> set k \<subseteq> set x" using assms by auto
    then show "\<not> contains x k" using contains_set by blast
  qed
  then have "apply_replacements replacements x = x" by (rule apply_replacements_absent)
  then have p: "preprocess_text py_unicode x = x"
    by (simp add: preprocess_text_py l f)
  have "split py_unicode x = []"
    using assms by (simp add: split_def py_unicode_def split_ws_spaces)
  with p show ?thesis by simp
qed


theorem preprocess_text_idempotent_without_terms_witness:
  "in_fragment [1043, 1054, 1057, 1058] \<and>
   list_all (\<lambda>(k, v). \<not> contains (preprocess_text py_unicode [1043, 1054, 1057, 1058]) k) replacements \<and>
   preprocess_text py_unicode [1043, 1054, 1057, 1058] = [1089, 1090, 1072, 1085, 1076, 1072, 1088, 1090] \<and>
   preprocess_text py_unicode (preprocess_text py_unicode [1043, 1054, 1057, 1058]) =
     preprocess_text py_unicode [1043, 1054, 1057, 1058]"
proof -
  have p: "preprocess_text py_unicode [1043, 1054, 1057, 1058] =
           [1089, 1090, 1072, 1085, 1076, 1072, 1088, 1090]"
    by (simp add: preprocess_text_py py_isalnum_def py_isspace_def py_lower_char_def
        apply_replacements_def replacements_def)
  have f: "in_fragment [1043, 1054, 1057, 1058]"
    by (simp add: in_fragment_def)
  have c: "\<forall>(k, v) \<in> set replacements. \<not> contains (preprocess_text py_unicode [1043, 1054, 1057, 1058]) k"
    unfolding p by (simp add: replacements_def)
  from c have "list_all (\<lambda>(k, v). \<not> contains (preprocess_text py_unicode [1043, 1054, 1057, 1058]) k) replacements"
    by (simp add: list_all_iff)
  with preprocess_text_idempotent_without_terms [OF f c] f p show ?thesis by blast
qed

text \<open>
  The input of the counterexample to C7 is the word "markerer" in Cyrillic letters: the
  first pass rewrites its leading "marker" to "mark", which joins the rest to a new
  "marker"; the second pass rewrites that one.
\<close>

theorem preprocess_text_not_idempotent:
  "preprocess_text py_unicode (preprocess_text py_unicode [1084, 1072, 1088, 1082, 1077, 1088, 1077, 1088])
   \<noteq> preprocess_text py_unicode [1084, 1072, 1088, 1082, 1077, 1088, 1077, 1088]"
proof -
  have a: "preprocess_text py_unicode [1084, 1072, 1088, 1082, 1077, 1088, 1077, 1088] =
           [1084, 1072, 1088, 1082, 1077, 1088]"
    by (simp add: preprocess_text_py py_isalnum_def py_isspace_def py_lower_char_def
        apply_replacements_def replacements_def)
  have b: "preprocess_text py_unicode [1084, 1072, 1088, 1082, 1077, 1088] = [1084, 1072, 1088, 1082]"
    by (simp add: preprocess_text_py py_isalnum_def py_isspace_def py_lower_char_def
        apply_replacements_def replacements_def)
  show ?thesis by (simp add: a b)
qed

theorem preprocess_text_whitespace_witness:
  "py_isspace 32 \<and> py_isspace 9 \<and> preprocess_text py_unicode [32, 9] = [32, 9] \<and>
   split py_unicode (preprocess_text py_unicode [32, 9]) = []"
proof -
  have h: "\<forall>c \<in> set [32, 9]. py_isspace c" by (simp add: py_isspace_def)
  have h': "py_isspace 32 \<and> py_isspace 9" by (simp add: py_isspace_def)
  from preprocess_text_whitespace [OF h] h' show ?thesis by blast
qed

text \<open>The counterexample to C9: the input is one space, and so is the result.\<close>

theorem preprocess_text_keeps_space: "preprocess_text py_unicode [32] \<noteq> []"
  by (simp add: preprocess_text_py py_isalnum_def py_isspace_def py_lower_char_def
      apply_replacements_def replacements_def)

subsection \<open>Scores\<close>

lemma bind_err_simps [simp]:
  "bind_err (Inl e) f = Inl e" "bind_err (Inr v) f = f v"
  by (simp_all add: bind_err_def)

lemma bind_err_Inr_iff:
  "bind_err x f = Inr y \<longleftrightarrow> (\<exists>v. x = Inr v \<and> f v = Inr y)"
  by (cases x) simp_all

lemma py_min_Min: "scores \<noteq> [] \<Longrightarrow> py_min scores = Inr (Min (set scores))"
proof (cases scores)
  case Nil
  then show "scores \<noteq> [] \<Longrightarrow> ?thesis" by simp
next
  case (Cons s ss)
  have "(\<lambda>x m. if x < m then x else m) = (min :: real \<Rightarrow> real \<Rightarrow> real)"
    by (intro ext) (simp add: min_def)
  then show ?thesis using Cons Min.set_eq_fold[of s ss] by simp
qed

lemma py_max_Max: "scores \<noteq> [] \<Longrightarrow> py_max scores = Inr (Max (set scores))"
proof (cases scores)
  case Nil
  then show "scores \<noteq> [] \<Longrightarrow> ?thesis" by simp
next
  case (Cons s ss)
  have "(\<lambda>x m. if x > m then x else m) = (max :: real \<Rightarrow> real \<Rightarrow> real)"
    by (intro ext) (simp add: max_def)
  then show ?thesis using Cons Max.set_eq_fold[of s ss] by simp
qed

text \<open>
  Claim C4. With \<open>lo\<close> the least and \<open>hi\<close> the greatest score, the normalised vector has
  the length of the score vector; when \<open>hi = lo\<close> every entry is 100 if \<open>hi > 0\<close> and 0
  otherwise, and when \<open>hi \<noteq> lo\<close> the score \<open>s\<close> becomes \<open>(s - lo) / (hi - lo) * 100\<close>. (On
  no scores at all \<open>min\<close> raises.)
\<close>

theorem normalize_scores_min_max:
  assumes "scores \<noteq> []"
  shows "\<exists>normalized. normalize_scores scores = Inr normalized \<and>
           length normalized = length scores \<and>
           (\<forall>i < length scores. normalized ! i =
              (if Max (set scores) = Min (set scores)
               then (if Max (set scores) > 0 then 100 else 0)
               else (scores ! i - Min (set scores)) / (Max (set scores) - Min (set scores)) * 100))"
  using assms by (simp add: normalize_scores_def py_min_Min py_max_Max)

lemma normalize_scores_range:
  assumes "normalize_scores scores = Inr normalized"
  shows "length normalized = length scores \<and> (\<forall>x \<in> set normalized. 0 \<le> x \<and> x \<le> 100)"
proof -
  from assms have ne: "scores \<noteq> []" by (auto simp: normalize_scores_def)
  let ?lo = "Min (set scores)" and ?hi = "Max (set scores)"
  have n: "normalized = (if ?hi = ?lo then (if ?hi > 0 then replicate (length scores) 100
                  else replicate (length scores) 0)
            else map (\<lambda>s. (s - ?lo) / (?hi - ?lo) * 100) scores)"
    using assms ne by (simp add: normalize_scores_def py_min_Min py_max_Max)
  show ?thesis
  proof (cases "?hi = ?lo")
    case True
    then show ?thesis using n by auto
  next
    case False
    have "hd scores \<in> set scores" using ne by simp
    then have "?lo \<le> hd scores" "hd scores \<le> ?hi" by simp_all
    then have lohi: "?lo \<le> ?hi" by linarith
    with False have lt: "?lo < ?hi" by simp
    have "0 \<le> (s - ?lo) / (?hi - ?lo) * 100 \<and> (s - ?lo) / (?hi - ?lo) * 100 \<le> 100" if "s \<in> set scores" for s
    proof -
      have "?lo \<le> s" "s \<le> ?hi" using that by simp_all
      then show ?thesis using lt by (simp add: divide_simps)
    qed
    then show ?thesis using n False by auto
  qed
qed

lemma prefix_bonus_range:
  "idx + length names \<le> length normalized \<Longrightarrow> \<forall>x \<in> set normalized. 0 \<le> x \<and> x \<le> 100 \<Longrightarrow>
   \<exists>adjusted. prefix_bonus q names idx normalized = Inr adjusted \<and>
      length adjusted = length normalized \<and> (\<forall>x \<in> set adjusted. 0 \<le> x \<and> x \<le> 100)"
proof (induction names arbitrary: idx normalized)
  case Nil
  then show ?case by simp
next
  case (Cons name names)
  let ?n' = "normalized[idx := min (normalized ! idx + 5) 100]"
  from Cons.prems have idx: "idx < length normalized" by simp
  with Cons.prems have "0 \<le> normalized ! idx" by simp
  then have "\<forall>x \<in> set ?n'. 0 \<le> x \<and> x \<le> 100"
    using Cons.prems(2) set_update_subset_insert[of normalized idx "min (normalized ! idx + 5) 100"]
    by auto
  moreover have "Suc idx + length names \<le> length ?n'" using Cons.prems by simp
  ultimately have a: "\<exists>adjusted. prefix_bonus q names (Suc idx) ?n' = Inr adjusted \<and>
      length adjusted = length ?n' \<and> (\<forall>x \<in> set adjusted. 0 \<le> x \<and> x \<le> 100)"
    by (rule Cons.IH[rotated])
  have b: "\<exists>adjusted. prefix_bonus q names (Suc idx) normalized = Inr adjusted \<and>
      length adjusted = length normalized \<and> (\<forall>x \<in> set adjusted. 0 \<le> x \<and> x \<le> 100)"
    using Cons.prems by (intro Cons.IH) simp_all
  show ?case using a b idx by simp
qed

text \<open>
  Claim C6. For every query text and every catalogue (one name per score), normalising
  the scores and adding the prefix bonus succeeds and leaves every adjusted similarity
  in the closed interval from 0 to 100.
\<close>

theorem adjusted_similarity_range:
  assumes "scores \<noteq> []" and "length names \<le> length scores"
  shows "\<exists>adjusted. bind_err (normalize_scores scores) (prefix_bonus q names 0) = Inr adjusted \<and>
           length adjusted = length scores \<and> (\<forall>x \<in> set adjusted. 0 \<le> x \<and> x \<le> 100)"
proof -
  obtain normalized where n: "normalize_scores scores = Inr normalized"
    using assms(1) by (auto simp: normalize_scores_def py_min_Min py_max_Max)
  from normalize_scores_range[OF n] assms(2)
  have "0 + length names \<le> length normalized" "\<forall>x \<in> set normalized. 0 \<le> x \<and> x \<le> 100"
    and l: "length normalized = length scores"
    by simp_all
  from prefix_bonus_range[OF this(1,2), of q] show ?thesis using n l by auto
qed

theorem normalize_scores_min_max_witness:
  "[1, 3, 2] \<noteq> ([] :: real list) \<and>
   (\<exists>normalized. normalize_scores [1, 3, 2] = Inr normalized \<and> length normalized = 3 \<and>
      normalized ! 0 = 0 \<and> normalized ! 1 = 100 \<and> normalized ! 2 = 50)"
proof -
  have h: "[1, 3, 2] \<noteq> ([] :: real list)" by simp
  from normalize_scores_min_max [OF h] obtain normalized where
    n: "normalize_scores [1, 3, 2] = Inr normalized" "length normalized = 3"
    and a: "\<forall>i < 3. normalized ! i = ([1, 3, 2] ! i - 1) / (3 - 1) * 100"
    by auto
  have "normalized ! 0 = 0" using a [rule_format, of 0] by simp
  moreover have "normalized ! 1 = 100" using a [rule_format, of 1] by simp
  moreover have "normalized ! 2 = 50" using a [rule_format, of 2] by simp
  ultimately show ?thesis using n h by blast
qed

theorem adjusted_similarity_range_witness:
  "[1, 3, 2] \<noteq> ([] :: real list) \<and> length [[97, 98], [98], [97]] \<le> length [1, 3, 2 :: real] \<and>
   (\<exists>adjusted. bind_err (normalize_scores [1, 3, 2]) (prefix_bonus [97] [[97, 98], [98], [97]] 0)
        = Inr adjusted \<and>
      length adjusted = 3 \<and> list_all (\<lambda>x. 0 \<le> x \<and> x \<le> 100) adjusted)"
proof -
  have h: "[1, 3, 2] \<noteq> ([] :: real list)" by simp
  have l: "length [[97, 98], [98], [97 :: nat]] \<le> length [1, 3, 2 :: real]" by simp
  from adjusted_similarity_range [OF h l, of "[97]"] h l show ?thesis
    by (simp add: list_all_iff numeral_3_eq_3)
qed

subsection \<open>The query of a group\<close>

lemma set_first_occurrences: "set (first_occurrences xs) = set xs"
  by (induction xs) auto

lemma distinct_first_occurrences: "distinct (first_occurrences xs)"
  by (induction xs) auto

lemma index_nth: "x \<in> set xs \<Longrightarrow> xs ! index xs x = x"
  by (induction xs) auto

lemma inj_on_index: "inj_on (index xs) (set xs)"
proof (rule inj_onI)
  fix x y assume "x \<in> set xs" "y \<in> set xs" "index xs x = index xs y"
  then show "x = y" by (metis index_nth)
qed

lemma sorted_map_Suc: "sorted ys \<Longrightarrow> sorted (map Suc ys)"
  by (induction ys) auto

lemma map_index_Cons:
  "map (index (x # xs)) (filter (\<lambda>y. y \<noteq> x) l) = map Suc (map (index xs) (filter (\<lambda>y. y \<noteq> x) l))"
  by (induction l) auto

lemma sorted_index_first_occurrences: "sorted (map (index xs) (first_occurrences xs))"
proof (induction xs)
  case Nil
  then show ?case by simp
next
  case (Cons x xs)
  have "sorted (map (index xs) (filter (\<lambda>y. y \<noteq> x) (first_occurrences xs)))"
    using Cons.IH by (rule sorted_filter)
  then have "sorted (map Suc (map (index xs) (filter (\<lambda>y. y \<noteq> x) (first_occurrences xs))))"
    by (rule sorted_map_Suc)
  then have "sorted (map (index (x # xs)) (filter (\<lambda>y. y \<noteq> x) (first_occurrences xs)))"
    by (simp only: map_index_Cons)
  moreover have "index (x # xs) x = 0" by simp
  ultimately show ?case by (simp del: index.simps)
qed

lemma sort_key_index_first_occurrences:
  assumes "distinct it" and "set it = set parts"
  shows "sort_key (index parts) it = first_occurrences parts"
proof (rule map_sorted_distinct_set_unique[where f = "index parts"])
  show "inj_on (index parts) (set (sort_key (index parts) it) \<union> set (first_occurrences parts))"
    using assms inj_on_index[of parts] by (simp add: set_first_occurrences)
  show "sorted (map (index parts) (sort_key (index parts) it))" by (rule sorted_sort_key)
  show "distinct (map (index parts) (sort_key (index parts) it))"
    using assms inj_on_index[of parts] by (simp add: distinct_map)
  show "sorted (map (index parts) (first_occurrences parts))"
    by (rule sorted_index_first_occurrences)
  show "distinct (map (index parts) (first_occurrences parts))"
    using inj_on_index[of parts] by (simp add: distinct_map set_first_occurrences distinct_first_occurrences)
  show "set (sort_key (index parts) it) = set (first_occurrences parts)"
    using assms by (simp add: set_first_occurrences)
qed

text \<open>
  Claim C8. Whatever the order in which the set yields the parts, the query text of a
  group is the non-missing values of the selected columns, row by row, in the order of
  their first occurrence and without repetitions, joined by single spaces. The witness
  is the example of the claim: the rows \<open>A, B\<close> and \<open>B, C\<close> give \<open>A B C\<close>.
\<close>

theorem unique_query_first_occurrences:
  assumes "distinct it" and "set it = set (query_parts selected_columns group_df)"
  shows "unique_query_of it (query_parts selected_columns group_df) =
           join [32] (first_occurrences (query_parts selected_columns group_df))"
  using assms by (simp add: unique_query_of_def sort_key_index_first_occurrences)

lemma unique_query_eq: "unique_query parts = join [32] (first_occurrences parts)"
  by (simp add: unique_query_def unique_query_of_def sort_key_index_first_occurrences)

lemma example_query_parts:
  "query_parts [[120], [121]]
     [mk_row [([120], Str [65]), ([121], Str [66])], mk_row [([120], Str [66]), ([121], Str [67])]]
   = [[65], [66], [66], [67]]"
  by (simp add: query_parts_def mk_row_def)

theorem unique_query_first_occurrences_witness:
  "distinct [[67], [65], [66 :: nat]] \<and>
   unique_query_of [[67], [65], [66]]
     (query_parts [[120], [121]]
        [mk_row [([120], Str [65]), ([121], Str [66])], mk_row [([120], Str [66]), ([121], Str [67])]])
   = [65, 32, 66, 32, 67]"
proof -
  have d: "distinct [[67], [65], [66 :: nat]]" by simp
  have s: "set [[67], [65], [66]] =
           set (query_parts [[120], [121]]
                  [mk_row [([120], Str [65]), ([121], Str [66])],
                   mk_row [([120], Str [66]), ([121], Str [67])]])"
    unfolding example_query_parts by auto
  from unique_query_first_occurrences [OF d s] d show ?thesis
    unfolding example_query_parts by simp
qed

subsection \<open>Selection\<close>

lemma get_status_total: "required_columns cols \<Longrightarrow> \<exists>s. get_status cols r = Inr s"
  by (simp add: required_columns_def get_status_def getitem_def Let_def)

lemma select_unique_inv:
  assumes "required_columns cols"
  shows "finite seen \<Longrightarrow> int (card seen) < top_n \<Longrightarrow>
    \<exists>rs. select_unique cols top_n g cs seen = Inr rs \<and>
      distinct (map Kod rs) \<and> set (map Kod rs) \<inter> seen = {} \<and>
      length rs = min (nat top_n - card seen) (card ((\<lambda>c. entry c col_Kod) ` set cs - seen)) \<and>
      subseq (map shown_result rs) (map shown cs) \<and> (\<forall>r \<in> set rs. Zapros r = g)"
proof (induction cs arbitrary: seen)
  case Nil
  then show ?case by simp
next
  case (Cons c cs)
  let ?code = "entry c col_Kod"
  let ?codes = "\<lambda>cs. (\<lambda>c. entry c col_Kod) ` set cs"
  from assms have gi: "getitem cols (entry c) col_Kod = Inr ?code"
    "getitem cols (entry c) col_Nomenklatura = Inr (entry c col_Nomenklatura)"
    by (simp_all add: required_columns_def getitem_def)
  from get_status_total[OF assms] obtain status where st: "get_status cols (entry c) = Inr status"
    by blast
  show ?case
  proof (cases "?code \<in> seen")
    case True
    from Cons.IH[OF Cons.prems] obtain rs where
      rs: "select_unique cols top_n g cs seen = Inr rs" "distinct (map Kod rs)"
        "set (map Kod rs) \<inter> seen = {}"
        "length rs = min (nat top_n - card seen) (card (?codes cs - seen))"
        "subseq (map shown_result rs) (map shown cs)" "\<forall>r \<in> set rs. Zapros r = g"
      by blast
    have "?codes (c # cs) - seen = ?codes cs - seen" using True by auto
    with rs True gi show ?thesis by (auto simp: subseq_Cons')
  next
    case False
    let ?res = "\<lparr> Zapros = g, Nomenklatura = entry c col_Nomenklatura, Kod = ?code,
                          Skhodstvo = similarity c, Status = status \<rparr>"
    have card_ins: "card (insert ?code seen) = Suc (card seen)"
      using False Cons.prems(1) by simp
    have split_codes: "?codes (c # cs) - seen = insert ?code (?codes cs - insert ?code seen)"
      using False by auto
    have card_codes: "card (?codes (c # cs) - seen) = Suc (card (?codes cs - insert ?code seen))"
      unfolding split_codes by simp
    have sr: "shown_result ?res = shown c" by (simp add: shown_result_def shown_def)
    show ?thesis
    proof (cases "top_n \<le> int (card (insert ?code seen))")
      case True
      then have "nat top_n - card seen = 1" using Cons.prems(2) card_ins by simp
      then have "length [?res] = min (nat top_n - card seen) (card (?codes (c # cs) - seen))"
        using card_codes by simp
      moreover have "select_unique cols top_n g (c # cs) seen = Inr [?res]"
        using gi st False True by (simp add: Let_def)
      moreover have "subseq (map shown_result [?res]) (map shown (c # cs))"
        using sr by simp
      ultimately show ?thesis using False by (intro exI[of _ "[?res]"]) simp
    next
      case nb: False
      then have lt: "int (card (insert ?code seen)) < top_n" by simp
      have fin: "finite (insert ?code seen)" using Cons.prems(1) by simp
      from Cons.IH[OF fin lt] obtain rs where
        rs: "select_unique cols top_n g cs (insert ?code seen) = Inr rs" "distinct (map Kod rs)"
          "set (map Kod rs) \<inter> insert ?code seen = {}"
          "length rs = min (nat top_n - card (insert ?code seen)) (card (?codes cs - insert ?code seen))"
          "subseq (map shown_result rs) (map shown cs)" "\<forall>r \<in> set rs. Zapros r = g"
        by blast
      have sel: "select_unique cols top_n g (c # cs) seen = Inr (?res # rs)"
        using gi st False nb rs(1) by (simp add: Let_def)
      have k: "nat top_n - card seen = Suc (nat top_n - card (insert ?code seen))"
        using lt card_ins by linarith
      have len: "length (?res # rs) = min (nat top_n - card seen) (card (?codes (c # cs) - seen))"
        unfolding length_Cons rs(4) card_codes k by simp
      have "distinct (map Kod (?res # rs))" using rs(2,3) by auto
      moreover have "set (map Kod (?res # rs)) \<inter> seen = {}" using rs(3) False by auto
      moreover have "subseq (map shown_result (?res # rs)) (map shown (c # cs))"
        using rs(5) sr by simp
      moreover have "\<forall>r \<in> set (?res # rs). Zapros r = g" using rs(6) by simp
      ultimately show ?thesis using sel len by blast
    qed
  qed
qed

lemma head_nonneg: "0 \<le> n \<Longrightarrow> head n xs = take (nat n) xs"
  by (simp add: head_def)

text \<open>
  Claim C5. For a count \<open>top_n\<close> (not negative) and a catalogue with the required
  columns, the selection returns without an error; no two results have the same code,
  there are at most \<open>top_n\<close> of them, they are taken in order from the first \<open>2 * top_n\<close>
  sorted candidates, and their number is \<open>top_n\<close> or the number of distinct codes in that
  window, whichever is smaller.
\<close>

theorem select_unique_top_n:
  assumes "0 \<le> top_n" and "required_columns cols"
  shows "\<exists>rs. select_unique cols top_n g (head (top_n * 2) sorted_df) {} = Inr rs \<and>
           distinct (map Kod rs) \<and> int (length rs) \<le> top_n \<and>
           head (top_n * 2) sorted_df = take (2 * nat top_n) sorted_df \<and>
           subseq (map shown_result rs) (map shown (take (2 * nat top_n) sorted_df)) \<and>
           length rs = min (nat top_n)
                         (card ((\<lambda>c. entry c col_Kod) ` set (take (2 * nat top_n) sorted_df)))"
proof -
  have h: "head (top_n * 2) sorted_df = take (2 * nat top_n) sorted_df"
    using assms(1) by (simp add: head_def nat_mult_distrib mult.commute)
  show ?thesis
  proof (cases "top_n = 0")
    case True
    then show ?thesis by (simp add: head_def)
  next
    case False
    with assms(1) have "int (card ({} :: cell set)) < top_n" by simp
    from select_unique_inv[OF assms(2) _ this, of g "take (2 * nat top_n) sorted_df"]
    obtain rs where rs: "select_unique cols top_n g (take (2 * nat top_n) sorted_df) {} = Inr rs"
      "distinct (map Kod rs)"
      "length rs = min (nat top_n - card ({} :: cell set))
          (card ((\<lambda>c. entry c col_Kod) ` set (take (2 * nat top_n) sorted_df) - {}))"
      "subseq (map shown_result rs) (map shown (take (2 * nat top_n) sorted_df))"
      by auto
    from rs(3) have "int (length rs) \<le> top_n" using assms(1) by simp
    with rs h show ?thesis by simp
  qed
qed

lemma required_catalog_columns: "required_columns catalog_columns"
  by (simp add: required_columns_def catalog_columns_def)

lemma catalog_row_simps: "catalog_row n c l col_Kod = Str c" "catalog_row n c l col_Nomenklatura = Str n"
  "catalog_row n c l col_Oformleno = Str l"
  "catalog_row n c l col_TovarProizvoditelya = Str Net"
  "catalog_row n c l col_OsnovnojAssortiment = Str Net"
  by (simp_all add: catalog_row_def mk_row_def col_Kod_def col_Nomenklatura_def col_Oformleno_def
      col_TovarProizvoditelya_def col_OsnovnojAssortiment_def)

lemma getitem_catalog_row: "getitem catalog_columns (catalog_row n c l) col_Kod = Inr (Str c)"
  "getitem catalog_columns (catalog_row n c l) col_Nomenklatura = Inr (Str n)"
  by (simp_all add: getitem_def catalog_row_simps catalog_columns_def)

lemma get_status_unset: "get_status catalog_columns (catalog_row n c Net) = Inr [8212]"
  by (simp add: get_status_def getitem_def catalog_row_simps catalog_columns_def Da_def Net_def)

lemma example_selection: "select_unique catalog_columns 2 [103]
      (head (2 * 2) example_sorted) {}
     = Inr [\<lparr> Zapros = [103], Nomenklatura = Str [97], Kod = Str [49], Skhodstvo = 90, Status = [8212] \<rparr>,
            \<lparr> Zapros = [103], Nomenklatura = Str [99], Kod = Str [50], Skhodstvo = 70, Status = [8212] \<rparr>]"
  by (simp add: head_def get_status_unset getitem_catalog_row example_sorted_def)

theorem select_unique_top_n_witness:
  "(0 :: int) \<le> 2 \<and> required_columns catalog_columns \<and>
   (\<exists>rs. select_unique catalog_columns 2 [103] (head (2 * 2) example_sorted) {} = Inr rs \<and>
      distinct (map Kod rs) \<and> int (length rs) \<le> 2 \<and> map Kod rs = [Str [49], Str [50]])"
proof -
  have h: "(0 :: int) \<le> 2" by simp
  from select_unique_top_n [OF h required_catalog_columns, of "[103]" example_sorted]
  obtain rs where rs: "select_unique catalog_columns 2 [103] (head (2 * 2) example_sorted) {} = Inr rs"
    "distinct (map Kod rs)" "int (length rs) \<le> 2"
    by blast
  from rs(1) have "map Kod rs = [Str [49], Str [50]]"
    unfolding example_selection by auto
  with rs have "\<exists>rs. select_unique catalog_columns 2 [103] (head (2 * 2) example_sorted) {} = Inr rs \<and>
      distinct (map Kod rs) \<and> int (length rs) \<le> 2 \<and> map Kod rs = [Str [49], Str [50]]"
    by (intro exI [of _ rs] conjI)
  with h required_catalog_columns show ?thesis by (intro conjI)
qed

subsection \<open>A group whose query has no token\<close>

lemma BM25Okapi_Inr:
  "BM25Okapi corpus = Inr bm \<Longrightarrow> corpus \<noteq> [] \<and> corpus_size bm = length corpus"
  by (auto simp: BM25Okapi_def Let_def split: if_splits)

lemma BM25Okapi_total:
  "corpus \<noteq> [] \<Longrightarrow> concat corpus \<noteq> [] \<Longrightarrow> \<exists>bm. BM25Okapi corpus = Inr bm"
  by (simp add: BM25Okapi_def Let_def)

lemma BM25Okapi_empty: "BM25Okapi [] = Inl ZeroDivisionError"
  by (simp add: BM25Okapi_def)

lemma BM25Okapi_built_iff:
  "(\<exists>bm. BM25Okapi corpus = Inr bm) \<longleftrightarrow> corpus \<noteq> [] \<and> concat corpus \<noteq> []"
  by (auto simp: BM25Okapi_def Let_def)

lemma BM25Okapi_no_token:
  "concat corpus = [] \<Longrightarrow> BM25Okapi corpus = Inl ZeroDivisionError"
  by (simp add: BM25Okapi_def Let_def)

lemma get_scores_no_tokens: "get_scores bm [] = replicate (corpus_size bm) 0"
  by (simp add: get_scores_def)

lemma normalize_scores_zeros: "0 < n \<Longrightarrow> normalize_scores (replicate n 0) = Inr (replicate n 0)"
  by (simp add: normalize_scores_def py_min_Min py_max_Max)

lemma prefix_bonus_empty_query:
  "idx + length names \<le> length xs \<Longrightarrow>
   \<exists>adjusted. prefix_bonus [] names idx xs = Inr adjusted \<and> length adjusted = length xs \<and>
     (\<forall>i < length xs. adjusted ! i =
        (if idx \<le> i \<and> i < idx + length names then min (xs ! i + 5) 100 else xs ! i))"
proof (induction names arbitrary: idx xs)
  case Nil
  then show ?case by simp
next
  case (Cons name names)
  let ?xs' = "xs[idx := min (xs ! idx + 5) 100]"
  from Cons.prems have "Suc idx + length names \<le> length ?xs'" by simp
  from Cons.IH[OF this] obtain adjusted where
    a: "prefix_bonus [] names (Suc idx) ?xs' = Inr adjusted" "length adjusted = length ?xs'"
      "\<forall>i < length ?xs'. adjusted ! i =
        (if Suc idx \<le> i \<and> i < Suc idx + length names then min (?xs' ! i + 5) 100 else ?xs' ! i)"
    by blast
  from Cons.prems have idx: "idx < length xs" by simp
  have "prefix_bonus [] (name # names) idx xs = Inr adjusted" using a(1) idx by simp
  moreover have "length adjusted = length xs" using a(2) by simp
  moreover have "adjusted ! i =
        (if idx \<le> i \<and> i < idx + length (name # names) then min (xs ! i + 5) 100 else xs ! i)"
    if "i < length xs" for i
    using a(3)[rule_format, of i] that idx by (cases "i = idx") (auto simp: nth_list_update)
  ultimately show ?case by blast
qed

lemma prefix_bonus_zeros:
  "prefix_bonus [] names 0 (replicate (length names) 0) = Inr (replicate (length names) 5)"
proof -
  from prefix_bonus_empty_query[of 0 names "replicate (length names) 0"]
  obtain adjusted where a: "prefix_bonus [] names 0 (replicate (length names) 0) = Inr adjusted"
    "length adjusted = length names"
    "\<forall>i < length names. adjusted ! i = min (replicate (length names) 0 ! i + 5) 100"
    by auto
  have "adjusted = replicate (length names) 5"
    using a(2,3) by (intro nth_equalityI) auto
  with a(1) show ?thesis by simp
qed

lemma with_similarity_const:
  "with_similarity nom (replicate (length nom) s) = Inr (map (\<lambda>r. \<lparr> entry = r, similarity = s \<rparr>) nom)"
proof -
  have "map2 (\<lambda>r s. \<lparr> entry = r, similarity = s \<rparr>) nom (replicate n s)
        = map (\<lambda>r. \<lparr> entry = r, similarity = s \<rparr>) (take n nom)" for n
  proof (induction nom arbitrary: n)
    case Nil
    then show ?case by simp
  next
    case (Cons r nom)
    then show ?case by (cases n) simp_all
  qed
  from this[of "length nom"] show ?thesis by (simp add: with_similarity_def)
qed

lemma set_insert_stable: "set (insert_stable before x ys) = insert x (set ys)"
  by (induction ys) auto

lemma set_stable_sort: "set (stable_sort before xs) = set xs"
  by (induction xs) (simp_all add: stable_sort_def set_insert_stable)

lemma length_insert_stable: "length (insert_stable before x ys) = Suc (length ys)"
  by (induction ys) auto

lemma length_stable_sort: "length (stable_sort before xs) = length xs"
  by (induction xs) (simp_all add: stable_sort_def length_insert_stable)

lemma set_head: "set (head n xs) \<subseteq> set xs"
  by (auto simp: head_def dest: in_set_takeD)

lemma select_unique_total:
  "required_columns cols \<Longrightarrow> \<exists>rs. select_unique cols top_n g cs seen = Inr rs"
proof (induction cs arbitrary: seen)
  case Nil
  then show ?case by simp
next
  case (Cons c cs)
  from Cons.prems have gi: "getitem cols (entry c) col_Kod = Inr (entry c col_Kod)"
    "getitem cols (entry c) col_Nomenklatura = Inr (entry c col_Nomenklatura)"
    by (simp_all add: required_columns_def getitem_def)
  from get_status_total[OF Cons.prems] obtain status where st: "get_status cols (entry c) = Inr status"
    by blast
  from Cons.IH[OF Cons.prems] obtain r1 where r1: "select_unique cols top_n g cs seen = Inr r1"
    by blast
  from Cons.IH[OF Cons.prems] obtain r2 where
    r2: "select_unique cols top_n g cs (insert (entry c col_Kod) seen) = Inr r2"
    by blast
  show ?case using gi st r1 r2 by (simp add: Let_def)
qed

lemma select_unique_similarity:
  "select_unique cols top_n g cs seen = Inr rs \<Longrightarrow> \<forall>r \<in> set rs. Skhodstvo r \<in> similarity ` set cs"
proof (induction cs arbitrary: seen rs)
  case Nil
  then show ?case by simp
next
  case (Cons c cs)
  show ?case
    using Cons.prems Cons.IH
    by (auto simp: bind_err_Inr_iff Let_def split: if_splits)
qed


lemma process_group_no_tokens:
  assumes "split U (preprocess_text U (unique_query (query_parts selected_columns (snd g)))) = []"
    and "BM25Okapi (map (\<lambda>r. split U (py_str (r col_processed))) nom) = Inr bm"
    and "priority \<in> set cols"
  shows "process_group U bm cols nom selected_columns priority top_n g =
           select_unique cols top_n (fst g)
             (head (top_n * 2)
                (stable_sort (precedes priority) (map (\<lambda>r. \<lparr> entry = r, similarity = 5 \<rparr>) nom))) {}"
proof -
  from BM25Okapi_Inr[OF assms(2)] have ne: "nom \<noteq> []" and cs: "corpus_size bm = length nom"
    by simp_all
  have n: "normalize_scores (get_scores bm []) = Inr (replicate (length nom) 0)"
    using ne by (simp add: get_scores_no_tokens cs normalize_scores_zeros)
  have b: "prefix_bonus [] (map (\<lambda>r. py_str (r col_processed)) nom) 0 (replicate (length nom) 0)
           = Inr (replicate (length nom) 5)"
    using prefix_bonus_zeros[of "map (\<lambda>r. py_str (r col_processed)) nom"] by simp
  show ?thesis
    using assms(1,3) n b by (simp add: process_group_def Let_def with_similarity_const sort_values_def)
qed

text \<open>
  Claim C10, as amended. When the preprocessed query of a group has no token and the
  index was built over the catalogue (that is, by \<open>BM25Okapi_built_iff\<close>, the catalogue is
  not empty and its normalised names hold at least one token), the scores are all zero,
  normalisation keeps them zero, and every entry gets the bonus, because every name
  starts with the empty text: every adjusted similarity is 5. With the required columns
  and an existing priority column the group is processed without an error, every result
  has similarity exactly 5, and for a positive \<open>top_n\<close> there is at least one result.
  Against a catalogue that is not empty but whose names hold no token the constructor
  of the index raises and nothing is scored (the counterexample follows below).
\<close>

theorem empty_query_similarity_five:
  assumes "split U (preprocess_text U (unique_query (query_parts selected_columns (snd g)))) = []"
    and "BM25Okapi (map (\<lambda>r. split U (py_str (r col_processed))) nom) = Inr bm"
    and "required_columns cols" and "priority \<in> set cols"
  shows "get_scores bm
           (split U (preprocess_text U (unique_query (query_parts selected_columns (snd g)))))
           = replicate (length nom) 0 \<and>
         normalize_scores (replicate (length nom) 0) = Inr (replicate (length nom) 0) \<and>
         prefix_bonus
           (join [32] (split U (preprocess_text U (unique_query (query_parts selected_columns (snd g))))))
           (map (\<lambda>r. py_str (r col_processed)) nom) 0 (replicate (length nom) 0)
           = Inr (replicate (length nom) 5) \<and>
         (\<exists>rs. process_group U bm cols nom selected_columns priority top_n g = Inr rs \<and>
           (\<forall>r \<in> set rs. Skhodstvo r = 5) \<and> (0 < top_n \<longrightarrow> rs \<noteq> []))"
proof -
  from BM25Okapi_Inr[OF assms(2)] have ne: "nom \<noteq> []" and cs: "corpus_size bm = length nom"
    by simp_all
  have sc: "get_scores bm
           (split U (preprocess_text U (unique_query (query_parts selected_columns (snd g)))))
           = replicate (length nom) 0"
    by (simp add: assms(1) get_scores_no_tokens cs)
  have n: "normalize_scores (replicate (length nom) 0) = Inr (replicate (length nom) 0)"
    using ne by (simp add: normalize_scores_zeros)
  have b: "prefix_bonus
           (join [32] (split U (preprocess_text U (unique_query (query_parts selected_columns (snd g))))))
           (map (\<lambda>r. py_str (r col_processed)) nom) 0 (replicate (length nom) 0)
           = Inr (replicate (length nom) 5)"
    using prefix_bonus_zeros[of "map (\<lambda>r. py_str (r col_processed)) nom"] by (simp add: assms(1))
  let ?temp = "map (\<lambda>r. \<lparr> entry = r, similarity = 5 \<rparr>) nom"
  let ?sorted = "stable_sort (precedes priority) ?temp"
  let ?window = "head (top_n * 2) ?sorted"
  have pg: "process_group U bm cols nom selected_columns priority top_n g
        = select_unique cols top_n (fst g) ?window {}"
    using assms(1,2,4) by (rule process_group_no_tokens)
  from select_unique_total[OF assms(3)] obtain rs where
    rs: "select_unique cols top_n (fst g) ?window {} = Inr rs"
    by blast
  have "set ?window \<subseteq> set ?temp" using set_head[of "top_n * 2" ?sorted] by (simp add: set_stable_sort)
  then have "\<forall>c \<in> set ?window. similarity c = 5" by auto
  with select_unique_similarity[OF rs] have five: "\<forall>r \<in> set rs. Skhodstvo r = 5" by auto
  have "rs \<noteq> []" if t: "0 < top_n"
  proof -
    have w: "?window = take (2 * nat top_n) ?sorted"
      using t by (simp add: head_def nat_mult_distrib mult.commute)
    have "?sorted \<noteq> []" using ne length_stable_sort[of "precedes priority" ?temp] by auto
    then have wne: "?window \<noteq> []" using t w by simp
    from t have "int (card ({} :: cell set)) < top_n" by simp
    from select_unique_inv[OF assms(3) _ this, of "fst g" ?window] rs
    have "length rs = min (nat top_n) (card ((\<lambda>c. entry c col_Kod) ` set ?window))"
      by auto
    moreover have "0 < card ((\<lambda>c. entry c col_Kod) ` set ?window)"
      using wne by (simp add: card_gt_0_iff)
    ultimately show ?thesis using t by auto
  qed
  with pg rs five have "\<exists>rs. process_group U bm cols nom selected_columns priority top_n g = Inr rs \<and>
           (\<forall>r \<in> set rs. Skhodstvo r = 5) \<and> (0 < top_n \<longrightarrow> rs \<noteq> [])"
    by simp
  with sc n b show ?thesis by (intro conjI)
qed

subsection \<open>An empty catalogue\<close>

text \<open>
  Claim C3, as amended. With both frames loaded, the selected columns present and the
  name column present, an empty catalogue makes \<open>process_grouped_requests\<close> fail, but
  with the \<open>ZeroDivisionError\<close> that the index constructor raises when it divides by the
  number of documents; the function has no check of its own for an empty catalogue, and
  the only precondition error it raises is the one for data that are not loaded.
\<close>

theorem empty_catalog_zero_division:
  assumes "rows nom = []" and "set selected_columns \<subseteq> set (columns req)"
    and "col_Nomenklatura \<in> set (columns nom)"
  shows "process_grouped_requests U update_progress selected_columns priority top_n
           (Some req) (Some nom) h = Inl ZeroDivisionError"
proof -
  have "find (\<lambda>c. c \<notin> set (columns req)) selected_columns = None"
    using assms(2) by (auto simp: find_None_iff)
  then show ?thesis
    using assms(1,3)
    by (simp add: process_grouped_requests_def Let_def add_processed_def BM25Okapi_empty)
qed

theorem empty_catalog_zero_division_witness:
  "process_grouped_requests py_unicode (\<lambda>current all h. h) [[113], [113]] col_Kod 3
     (Some example_request) (Some \<lparr> columns = catalog_columns, rows = [] \<rparr>) ()
   = Inl ZeroDivisionError"
proof -
  have a: "rows \<lparr> columns = catalog_columns, rows = [] \<rparr> = []" by simp
  have b: "set [[113], [113]] \<subseteq> set (columns example_request)"
    by (simp add: example_request_def)
  have c: "col_Nomenklatura \<in> set (columns \<lparr> columns = catalog_columns, rows = [] \<rparr>)"
    by (simp add: catalog_columns_def)
  from empty_catalog_zero_division [OF a b c] show ?thesis .
qed

text \<open>
  The counterexample to C3: a request of two rows against a catalogue with the five
  columns and no row. The error is the arithmetic one.
\<close>

theorem empty_catalog_not_reported:
  "process_grouped_requests py_unicode (\<lambda>current all h. h) [[113]] col_Oformleno 3
     (Some example_request) (Some \<lparr> columns = catalog_columns, rows = [] \<rparr>) ()
   = Inl ZeroDivisionError"
  by (simp add: process_grouped_requests_def Let_def add_processed_def BM25Okapi_def
      example_request_def catalog_columns_def col_Nomenklatura_def)

subsection \<open>The loop over the groups\<close>

lemma process_groups_results:
  "process_groups body update_progress total_groups gs idx results h = Inr (rs, h') \<Longrightarrow>
   (\<forall>g \<in> set gs. \<exists>r. body g = Inr r) \<and>
   rs = results @ concat (map (\<lambda>g. case body g of Inl e \<Rightarrow> [] | Inr r \<Rightarrow> r) gs)"
proof (induction gs arbitrary: idx results h)
  case Nil
  then show ?case by simp
next
  case (Cons g gs)
  from Cons.prems obtain r where r: "body g = Inr r"
    and rest: "process_groups body update_progress total_groups gs (Suc idx) (results @ r)
                 (update_progress (idx + 1) total_groups h) = Inr (rs, h')"
    by (auto simp: bind_err_Inr_iff)
  from Cons.IH[OF rest] r show ?case by simp
qed

subsection \<open>A run of two groups\<close>

lemma col_neq:
  "[113] \<noteq> col_combined_key" "col_processed \<noteq> col_Kod" "col_processed \<noteq> col_Nomenklatura"
  "col_processed \<noteq> col_Oformleno" "col_processed \<noteq> col_TovarProizvoditelya"
  "col_processed \<noteq> col_OsnovnojAssortiment"
  by (simp_all add: col_combined_key_def col_processed_def col_Kod_def col_Nomenklatura_def
      col_Oformleno_def col_TovarProizvoditelya_def col_OsnovnojAssortiment_def)

lemma preprocess_examples:
  "preprocess_text py_unicode [97] = [97]" "preprocess_text py_unicode [43] = []"
  "preprocess_text py_unicode [45] = []"
  by (simp_all add: preprocess_text_py py_isalnum_def py_isspace_def py_lower_char_def
      apply_replacements_def replacements_def)

lemma add_processed_example:
  "add_processed py_unicode (rows example_catalog) = example_processed"
  by (simp add: add_processed_def example_catalog_def example_processed_def catalog_row_simps
      preprocess_examples)

lemma tokenized_example:
  "map (\<lambda>r. split py_unicode (py_str (r col_processed))) example_processed = [[[97]]]"
  by (simp add: example_processed_def split_def py_unicode_def py_isspace_def)

lemma grouped_example:
  "groupby (\<lambda>r. py_str (r col_combined_key)) (add_combined_key [[113]] (rows example_request))
   = example_groups"
  by (simp add: groupby_def add_combined_key_def example_request_def example_groups_def
      combined_key_def mk_row_def)

lemma no_tokens_example:
  "g \<in> set example_groups \<Longrightarrow>
   split py_unicode (preprocess_text py_unicode (unique_query (query_parts [[113]] (snd g)))) = []"
  using col_neq(1)
  by (auto simp: example_groups_def query_parts_def mk_row_def unique_query_def unique_query_of_def
      preprocess_examples split_def)


lemma example_columns:
  "required_columns (catalog_columns @ [col_processed])"
  "col_Oformleno \<in> set (catalog_columns @ [col_processed])"
  "col_processed \<notin> set catalog_columns" "col_Nomenklatura \<in> set catalog_columns"
  using col_neq by (auto simp: required_columns_def catalog_columns_def)

lemma example_select:
  "select_unique (catalog_columns @ [col_processed]) 1 name
     (head (1 * 2) (stable_sort (precedes col_Oformleno)
        (map (\<lambda>r. \<lparr> entry = r, similarity = 5 \<rparr>) example_processed))) {}
   = Inr [\<lparr> Zapros = name, Nomenklatura = Str [97], Kod = Str [49], Skhodstvo = 5, Status = [8212] \<rparr>]"
proof -
  let ?r = "(catalog_row [97] [49] Net)(col_processed := Str [97])"
  have g: "getitem (catalog_columns @ [col_processed]) ?r col_Kod = Inr (Str [49])"
    "getitem (catalog_columns @ [col_processed]) ?r col_Nomenklatura = Inr (Str [97])"
    "getitem (catalog_columns @ [col_processed]) ?r col_Oformleno = Inr (Str Net)"
    "getitem (catalog_columns @ [col_processed]) ?r col_TovarProizvoditelya = Inr (Str Net)"
    "getitem (catalog_columns @ [col_processed]) ?r col_OsnovnojAssortiment = Inr (Str Net)"
    using col_neq by (simp_all add: getitem_def catalog_columns_def catalog_row_simps)
  have "Net \<noteq> Da" by (simp add: Da_def Net_def)
  then have st: "get_status (catalog_columns @ [col_processed]) ?r = Inr [8212]"
    by (simp add: get_status_def g)
  show ?thesis
    by (simp add: example_processed_def stable_sort_def head_def g st)
qed

text \<open>
  Claim C2 at a concrete run. The request has two groups and the catalogue one entry;
  the state of the host is its cancellation flag, unset at the start, and the callback
  sets it, so the signal is set after the first of the two groups. The call still
  processes the second group: it returns the results of both groups, and the flag is
  set at the end. The loop never reads the flag (\<open>process_groups_results\<close>: the results
  are those of all groups, whatever the callback and the host state).
\<close>

theorem cancellation_not_polled:
  "process_grouped_requests py_unicode (\<lambda>current all cancel_flag. True) [[113]] col_Oformleno 1
     (Some example_request) (Some example_catalog) False
   = Inr ([\<lparr> Zapros = [43], Nomenklatura = Str [97], Kod = Str [49], Skhodstvo = 5, Status = [8212] \<rparr>,
           \<lparr> Zapros = [45], Nomenklatura = Str [97], Kod = Str [49], Skhodstvo = 5, Status = [8212] \<rparr>],
          True)"
proof -
  obtain bm where bm: "BM25Okapi [[[97]]] = Inr bm"
    using BM25Okapi_total[of "[[[97]]]"] by auto
  then have bm': "BM25Okapi (map (\<lambda>r. split py_unicode (py_str (r col_processed))) example_processed) = Inr bm"
    by (simp only: tokenized_example)
  have body: "process_group py_unicode bm (catalog_columns @ [col_processed]) example_processed
                [[113]] col_Oformleno 1 g
              = Inr [\<lparr> Zapros = fst g, Nomenklatura = Str [97], Kod = Str [49], Skhodstvo = 5, Status = [8212] \<rparr>]"
    if "g \<in> set example_groups" for g
    using process_group_no_tokens[OF no_tokens_example[OF that] bm' example_columns(2), of 1]
    by (simp only: example_select)
  have f: "[113] \<in> set (columns example_request)"
    by (simp add: example_request_def)
  have cols: "columns example_catalog = catalog_columns" by (simp add: example_catalog_def)
  have "process_grouped_requests py_unicode (\<lambda>current all cancel_flag. True) [[113]] col_Oformleno 1
     (Some example_request) (Some example_catalog) False
     = process_groups (process_group py_unicode bm (catalog_columns @ [col_processed]) example_processed
                [[113]] col_Oformleno 1) (\<lambda>current all cancel_flag. True) (length example_groups)
          example_groups 0 [] False"
    using example_columns(3,4)
    by (simp add: process_grouped_requests_def f cols grouped_example add_processed_example
        tokenized_example bm Let_def)
  also have "\<dots> = Inr ([\<lparr> Zapros = [43], Nomenklatura = Str [97], Kod = Str [49], Skhodstvo = 5, Status = [8212] \<rparr>,
           \<lparr> Zapros = [45], Nomenklatura = Str [97], Kod = Str [49], Skhodstvo = 5, Status = [8212] \<rparr>],
          True)"
    using body by (simp add: example_groups_def)
  finally show ?thesis .
qed

theorem empty_query_similarity_five_witness:
  "\<exists>bm. BM25Okapi (map (\<lambda>r. split py_unicode (py_str (r col_processed))) example_processed) = Inr bm \<and>
     (\<exists>rs. process_group py_unicode bm (catalog_columns @ [col_processed]) example_processed
              [[113]] col_Oformleno 1 (hd example_groups) = Inr rs \<and>
            list_all (\<lambda>r. Skhodstvo r = 5) rs \<and> rs \<noteq> [])"
proof -
  obtain bm where bm: "BM25Okapi [[[97]]] = Inr bm"
    using BM25Okapi_total[of "[[[97]]]"] by auto
  then have bm': "BM25Okapi (map (\<lambda>r. split py_unicode (py_str (r col_processed))) example_processed) = Inr bm"
    by (simp only: tokenized_example)
  have g: "hd example_groups \<in> set example_groups" by (simp add: example_groups_def)
  from empty_query_similarity_five [OF no_tokens_example[OF g] bm' example_columns(1,2), of 1]
  have "\<exists>rs. process_group py_unicode bm (catalog_columns @ [col_processed]) example_processed
              [[113]] col_Oformleno 1 (hd example_groups) = Inr rs \<and>
            (\<forall>r \<in> set rs. Skhodstvo r = 5) \<and> ((0 :: int) < 1 \<longrightarrow> rs \<noteq> [])"
    by (elim conjE)
  then have "\<exists>rs. process_group py_unicode bm (catalog_columns @ [col_processed]) example_processed
              [[113]] col_Oformleno 1 (hd example_groups) = Inr rs \<and>
            list_all (\<lambda>r. Skhodstvo r = 5) rs \<and> rs \<noteq> []"
    by (simp add: list_all_iff)
  with bm' show ?thesis by blast
qed

lemma preprocess_punctuation:
  "preprocess_text py_unicode [33] = []"
  by (simp add: preprocess_text_py py_isalnum_def py_isspace_def py_lower_char_def
      apply_replacements_def replacements_def)

text \<open>
  The counterexample to C10: a catalogue of two entries whose names are a hyphen and an
  exclamation mark. It is not empty, but its normalised names hold no token, and the
  call raises before any query is scored.
\<close>

theorem token_free_catalog_raises:
  "process_grouped_requests py_unicode (\<lambda>current all h. h) [[113]] col_Oformleno 1
     (Some example_request)
     (Some \<lparr> columns = catalog_columns,
             rows = [catalog_row [45] [49] Net, catalog_row [33] [50] Net] \<rparr>) ()
   = Inl ZeroDivisionError"
proof -
  have f: "[113] \<in> set (columns example_request)"
    by (simp add: example_request_def)
  have t: "map (\<lambda>r. split py_unicode (py_str (r col_processed)))
             (add_processed py_unicode [catalog_row [45] [49] Net, catalog_row [33] [50] Net])
           = [[], []]"
    by (simp add: add_processed_def catalog_row_simps preprocess_examples preprocess_punctuation
        split_def)
  have "BM25Okapi [[], []] = Inl ZeroDivisionError"
    by (rule BM25Okapi_no_token) simp
  with f t example_columns(4) show ?thesis
    by (simp add: process_grouped_requests_def Let_def)
qed

subsection \<open>The order of the candidates\<close>

lemma less_Net_Da: "Da < Net"
  by (simp add: Da_def Net_def)

text \<open>
  Claim C1 at a concrete catalogue. The first entry has the priority flag Da (yes) and
  similarity 100, the second the flag Net (no) and similarity 0. Sorting by the flag
  column in descending order compares the two strings by code points, and Net is the
  greater one: the entry without the flag comes first.
\<close>

theorem listed_sorted_last:
  "sort_values col_Oformleno catalog_columns
     [\<lparr> entry = catalog_row [97] [49] Da, similarity = 100 \<rparr>,
      \<lparr> entry = catalog_row [98] [50] Net, similarity = 0 \<rparr>]
   = Inr [\<lparr> entry = catalog_row [98] [50] Net, similarity = 0 \<rparr>,
          \<lparr> entry = catalog_row [97] [49] Da, similarity = 100 \<rparr>]"
proof -
  have "col_Oformleno \<noteq> col_similarity" "col_Oformleno \<in> set catalog_columns"
    by (simp_all add: catalog_columns_def col_Oformleno_def col_similarity_def)
  with less_Net_Da show ?thesis
    by (simp add: sort_values_def stable_sort_def precedes_def catalog_row_simps)
qed

lemma cell_before_irrefl: "\<not> cell_before a a"
  by (cases a) simp_all

lemma cell_before_trans: "cell_before a b \<Longrightarrow> cell_before b c \<Longrightarrow> cell_before a c"
  by (cases a; cases b; cases c) auto

lemma cell_before_total: "a \<noteq> b \<Longrightarrow> cell_before a b \<or> cell_before b a"
  by (cases a; cases b) auto

lemma cell_before_asym: "cell_before a b \<Longrightarrow> \<not> cell_before b a"
  by (cases a; cases b) auto

lemma precedes_asym:
  assumes "precedes p a b"
  shows "\<not> precedes p b a"
proof (cases "p = col_similarity")
  case True
  with assms show ?thesis by (simp add: precedes_def)
next
  case False
  show ?thesis
  proof (cases "entry a p = entry b p")
    case True
    with assms \<open>p \<noteq> col_similarity\<close> show ?thesis
      by (simp add: precedes_def cell_before_irrefl)
  next
    case ne: False
    with assms False have "cell_before (entry a p) (entry b p)" by (simp add: precedes_def)
    then have "\<not> cell_before (entry b p) (entry a p)" by (rule cell_before_asym)
    with ne False show ?thesis by (auto simp: precedes_def)
  qed
qed

lemma precedes_negtrans:
  assumes "\<not> precedes p b a" and "\<not> precedes p c b"
  shows "\<not> precedes p c a"
proof (cases "p = col_similarity")
  case True
  with assms show ?thesis by (simp add: precedes_def)
next
  case False
  let ?k = "\<lambda>x. entry x p"
  from assms False have ba: "\<not> cell_before (?k b) (?k a)" "?k b = ?k a \<longrightarrow> similarity b \<le> similarity a"
    and cb: "\<not> cell_before (?k c) (?k b)" "?k c = ?k b \<longrightarrow> similarity c \<le> similarity b"
    by (auto simp: precedes_def)
  have 1: "\<not> cell_before (?k c) (?k a)"
  proof
    assume ca: "cell_before (?k c) (?k a)"
    show False
    proof (cases "?k b = ?k a")
      case True
      with ca cb(1) show False by simp
    next
      case False
      with ba(1) have "cell_before (?k a) (?k b)" using cell_before_total by blast
      with ca have "cell_before (?k c) (?k b)" by (rule cell_before_trans)
      with cb(1) show False by simp
    qed
  qed
  have 2: "similarity c \<le> similarity a" if eq: "?k c = ?k a"
  proof (cases "?k b = ?k a")
    case True
    with ba(2) cb(2) eq show ?thesis by simp
  next
    case False
    with ba(1) have "cell_before (?k a) (?k b)" using cell_before_total by blast
    with eq cb(1) show ?thesis by simp
  qed
  from 1 2 False show ?thesis by (auto simp: precedes_def)
qed

lemma sorted_insert_stable:
  assumes "sorted_wrt (\<lambda>a b. \<not> precedes p b a) ys"
  shows "sorted_wrt (\<lambda>a b. \<not> precedes p b a) (insert_stable (precedes p) x ys)"
  using assms
proof (induction ys)
  case Nil
  then show ?case by simp
next
  case (Cons y ys)
  show ?case
  proof (cases "precedes p y x")
    case True
    then have "\<not> precedes p x y" by (rule precedes_asym)
    with Cons True show ?thesis by (auto simp: set_insert_stable)
  next
    case False
    have "\<not> precedes p z x" if "z \<in> set ys" for z
    proof -
      from Cons.prems that have "\<not> precedes p z y" by simp
      with False show ?thesis by (rule precedes_negtrans)
    qed
    with Cons.prems False show ?thesis by auto
  qed
qed

lemma sorted_stable_sort:
  "sorted_wrt (\<lambda>a b. \<not> precedes p b a) (stable_sort (precedes p) xs)"
  by (induction xs) (simp_all add: stable_sort_def sorted_insert_stable)

lemma same_keys_iff:
  assumes "p \<noteq> col_similarity"
  shows "same_keys p a b \<longleftrightarrow> entry a p = entry b p \<and> similarity a = similarity b"
proof (cases "entry a p = entry b p")
  case True
  with assms show ?thesis
    by (auto simp: same_keys_def precedes_def cell_before_irrefl)
next
  case False
  then have "cell_before (entry a p) (entry b p) \<or> cell_before (entry b p) (entry a p)"
    by (rule cell_before_total)
  with False assms show ?thesis by (auto simp: same_keys_def precedes_def)
qed

lemma filter_insert_stable:
  assumes "sorted_wrt (\<lambda>a b. \<not> precedes p b a) ys"
  shows "filter (same_keys p c) (insert_stable (precedes p) x ys) =
         (if same_keys p c x then x # filter (same_keys p c) ys else filter (same_keys p c) ys)"
  using assms
proof (induction ys)
  case Nil
  then show ?case by simp
next
  case (Cons y ys)
  show ?case
  proof (cases "precedes p y x")
    case True
    have "\<not> same_keys p c y" if "same_keys p c x"
    proof
      assume "same_keys p c y"
      then have "\<not> precedes p y c" by (simp add: same_keys_def)
      moreover from that have "\<not> precedes p c x" by (simp add: same_keys_def)
      ultimately have "\<not> precedes p y x" using precedes_negtrans[of p c x y] by simp
      with True show False by simp
    qed
    with Cons True show ?thesis by auto
  next
    case False
    then show ?thesis by simp
  qed
qed

lemma filter_stable_sort:
  "filter (same_keys p c) (stable_sort (precedes p) xs) = filter (same_keys p c) xs"
proof (induction xs)
  case Nil
  then show ?case by (simp add: stable_sort_def)
next
  case (Cons x xs)
  have "stable_sort (precedes p) (x # xs) = insert_stable (precedes p) x (stable_sort (precedes p) xs)"
    by (simp add: stable_sort_def)
  then show ?case
    using filter_insert_stable[OF sorted_stable_sort, of p c x xs] Cons.IH by simp
qed

lemma count_insert_stable:
  "count_list (insert_stable before x ys) z = (if x = z then Suc (count_list ys z) else count_list ys z)"
  by (induction ys) auto

lemma count_stable_sort: "count_list (stable_sort before xs) z = count_list xs z"
  by (induction xs) (simp_all add: stable_sort_def count_insert_stable)

text \<open>
  What the sort does in general: the sorted frame has the rows of \<open>temp_df\<close>, no row
  comes after one that it strictly precedes (descending flag value, then descending
  similarity), and the rows that agree on both keys keep their order. With the flag
  values of the catalogue this puts every Net row before every Da row.
\<close>

lemma sort_values_order:
  assumes "sort_values priority cols temp_df = Inr sorted_df"
  shows "count_list sorted_df z = count_list temp_df z"
    and "sorted_wrt (\<lambda>a b. \<not> precedes priority b a) sorted_df"
    and "filter (same_keys priority c) sorted_df = filter (same_keys priority c) temp_df"
  using assms
  by (auto simp: sort_values_def count_stable_sort sorted_stable_sort filter_stable_sort split: if_splits)

lemma sort_values_flag_order:
  assumes "sort_values priority cols temp_df = Inr sorted_df" and "priority \<noteq> col_similarity"
    and "i < j" and "j < length sorted_df"
    and "entry (sorted_df ! j) priority = Str Net"
  shows "entry (sorted_df ! i) priority \<noteq> Str Da"
proof
  assume da: "entry (sorted_df ! i) priority = Str Da"
  from sort_values_order(2)[OF assms(1)] assms(3,4)
  have "\<not> precedes priority (sorted_df ! j) (sorted_df ! i)"
    by (simp add: sorted_wrt_iff_nth_less)
  moreover have "precedes priority (sorted_df ! j) (sorted_df ! i)"
    using assms(2,5) da less_Net_Da by (simp add: precedes_def)
  ultimately show False by simp
qed

subsection \<open>Token-free groups in a whole run\<close>

lemma select_unique_Zapros:
  "select_unique cols top_n g cs seen = Inr rs \<Longrightarrow> \<forall>r \<in> set rs. Zapros r = g"
proof (induction cs arbitrary: seen rs)
  case Nil
  then show ?case by simp
next
  case (Cons c cs)
  show ?case
    using Cons.prems Cons.IH
    by (auto simp: bind_err_Inr_iff Let_def split: if_splits)
qed

lemma process_group_Zapros:
  "process_group U bm cols nom selected_columns priority top_n g = Inr rs \<Longrightarrow>
   \<forall>r \<in> set rs. Zapros r = fst g"
  by (auto simp: process_group_def Let_def bind_err_Inr_iff dest: select_unique_Zapros)

lemma process_group_no_tokens_five:
  assumes "split U (preprocess_text U (unique_query (query_parts selected_columns (snd g)))) = []"
    and "BM25Okapi (map (\<lambda>r. split U (py_str (r col_processed))) nom) = Inr bm"
    and "process_group U bm cols nom selected_columns priority top_n g = Inr rs"
  shows "\<forall>r \<in> set rs. Skhodstvo r = 5"
proof -
  from BM25Okapi_Inr[OF assms(2)] have ne: "nom \<noteq> []" and cs: "corpus_size bm = length nom"
    by simp_all
  have n: "normalize_scores (get_scores bm []) = Inr (replicate (length nom) 0)"
    using ne by (simp add: get_scores_no_tokens cs normalize_scores_zeros)
  have b: "prefix_bonus [] (map (\<lambda>r. py_str (r col_processed)) nom) 0 (replicate (length nom) 0)
           = Inr (replicate (length nom) 5)"
    using prefix_bonus_zeros[of "map (\<lambda>r. py_str (r col_processed)) nom"] by simp
  let ?temp = "map (\<lambda>r. \<lparr> entry = r, similarity = 5 \<rparr>) nom"
  from assms(3) obtain sorted_df where
    s: "sort_values priority cols ?temp = Inr sorted_df"
    and rs: "select_unique cols top_n (fst g) (head (top_n * 2) sorted_df) {} = Inr rs"
    using assms(1) n b
    by (auto simp: process_group_def Let_def with_similarity_const bind_err_Inr_iff)
  from s have "set sorted_df = set ?temp"
    by (auto simp: sort_values_def set_stable_sort split: if_splits)
  with set_head[of "top_n * 2" sorted_df]
  have "\<forall>c \<in> set (head (top_n * 2) sorted_df). similarity c = 5" by auto
  with select_unique_similarity[OF rs] show ?thesis by auto
qed

lemma distinct_groupby_keys: "distinct (map fst (groupby key rs))"
  by (simp add: groupby_def comp_def)

text \<open>
  The same at the level of the whole call: when \<open>process_grouped_requests\<close> returns,
  every result of a group whose query has no token has similarity 5, whatever the
  catalogue, the priority column and \<open>top_n\<close>.
\<close>

lemma token_free_groups_similarity_five:
  assumes "process_grouped_requests U update_progress selected_columns priority top_n
             (Some req) (Some nom) h = Inr (rs, h')"
    and "g \<in> set (groupby (\<lambda>r. py_str (r col_combined_key))
                    (add_combined_key selected_columns (rows req)))"
    and "split U (preprocess_text U (unique_query (query_parts selected_columns (snd g)))) = []"
    and "r \<in> set rs" and "Zapros r = fst g"
  shows "Skhodstvo r = 5"
proof -
  let ?gs = "groupby (\<lambda>r. py_str (r col_combined_key)) (add_combined_key selected_columns (rows req))"
  let ?nom = "add_processed U (rows nom)"
  let ?cols = "if col_processed \<in> set (columns nom) then columns nom else columns nom @ [col_processed]"
  from assms(1) obtain bm where
    bm: "BM25Okapi (map (\<lambda>r. split U (py_str (r col_processed))) ?nom) = Inr bm"
    and pg: "process_groups (process_group U bm ?cols ?nom selected_columns priority top_n)
               update_progress (length ?gs) ?gs 0 [] h = Inr (rs, h')"
    by (auto simp: process_grouped_requests_def Let_def bind_err_Inr_iff
        split: option.splits if_splits)
  let ?body = "process_group U bm ?cols ?nom selected_columns priority top_n"
  from process_groups_results[OF pg]
  have ok: "\<forall>g \<in> set ?gs. \<exists>r. ?body g = Inr r"
    and all: "rs = concat (map (\<lambda>g. case ?body g of Inl e \<Rightarrow> [] | Inr r \<Rightarrow> r) ?gs)"
    by simp_all
  from assms(4) all obtain g' where g': "g' \<in> set ?gs"
    and r: "r \<in> set (case ?body g' of Inl e \<Rightarrow> [] | Inr r \<Rightarrow> r)"
    by auto
  from ok g' obtain rg where rg: "?body g' = Inr rg" by blast
  with r have "r \<in> set rg" by simp
  with process_group_Zapros[OF rg] have "Zapros r = fst g'" by simp
  with assms(5) have "fst g' = fst g" by simp
  moreover have "inj_on fst (set ?gs)"
    using distinct_groupby_keys[of "\<lambda>r. py_str (r col_combined_key)"] by (simp add: distinct_map)
  ultimately have "g' = g" using g' assms(2) by (auto dest: inj_onD)
  with rg have "?body g = Inr rg" by simp
  from process_group_no_tokens_five[OF assms(3) bm this] \<open>r \<in> set rg\<close> show ?thesis by simp
qed

end
